theory Spec2Isabelle
  imports Complex_Main "HOL-Library.Multiset" "HOL-Library.Sublist"
begin

section \<open>Values, thrown values and results\<close>

text \<open>
  A JavaScript Number as a script can return it. A finite value is carried by the rational
  it denotes; the two zeros are not told apart (the code only compares with \<open>0\<close>).
\<close>

datatype jsnum = NaN | PosInf | NegInf | Fin rat

text \<open>
  A JavaScript value, as far as \<open>typeof\<close> and \<open>Array.isArray\<close> tell values apart.
  \<open>JOpaque\<close> stands for every value that is none of the others: a function, a symbol, a
  bigint, a Map, a boxed primitive.
\<close>

datatype jsval =
    JUndefined
  | JNull
  | JBool bool
  | JNum jsnum
  | JStr string
  | JArr "jsval list"
  | JObj "(string \<times> jsval) list"
  | JOpaque string

text \<open>
  A thrown value, seen through the one expression every handler of the program applies to
  it, \<^verbatim>\<open>error instanceof Error ? error.message : String(error)\<close>:
  an \<open>Error\<close> with its message, another value with the text \<open>String\<close> gives for it, or
  a value for which that expression itself raises (an object without a prototype, an
  object whose \<open>toString\<close> throws); \<open>Opaque t\<close> raises \<open>t\<close>.
\<close>

datatype thrown = ErrorInstance string | OtherValue string | Opaque thrown

fun errorMessage :: "thrown \<Rightarrow> thrown + string" where
  "errorMessage (ErrorInstance m) = Inr m"
| "errorMessage (OtherValue s) = Inr s"
| "errorMessage (Opaque t) = Inl t"

text \<open>
  The nodes and edges of the store (flowSlice.ts). Of a node the executors read the id, the
  label and the code; the position and the display annotations are left out.
\<close>

record CodeNode =
  node_id :: string
  label :: string
  code :: string

record Edge =
  edge_id :: string
  source :: string
  target :: string

text \<open>
  The result interfaces. They share \<open>success\<close> and \<open>error\<close>, so these two fields are a
  record the others extend, and \<open>finalOutput\<close> is shared by the results of the two
  executors. An optional field that is absent is \<open>None\<close> (\<open>error\<close>) or reads as
  \<open>JUndefined\<close> (\<open>output\<close>, here \<open>output_value\<close>, and \<open>finalOutput\<close>).
  \<open>ExecutionResult.nextNodeId\<close> is never written and left out; the \<open>logs\<close> of a
  \<open>NodeExecutionResult\<close> are \<open>node_logs\<close>.
\<close>

record Outcome =
  success :: bool
  error :: "string option"

record ExecutionResult = Outcome +
  output_value :: jsval

record NodeExecutionResult = ExecutionResult +
  node_logs :: "string list"

record RunResult = Outcome +
  finalOutput :: jsval

record FlowExecutionResult = RunResult +
  executionPath :: "string list"

record ExecutionContext =
  input :: jsval
  variables :: jsval

text \<open>Reading \<open>xs[i]\<close>: \<open>undefined\<close> (here \<open>None\<close>) past the end.\<close>

fun elem_at :: "'a list \<Rightarrow> nat \<Rightarrow> 'a option" where
  "elem_at [] i = None"
| "elem_at (x # xs) 0 = Some x"
| "elem_at (x # xs) (Suc i) = elem_at xs i"

section \<open>CodeExecutor\<close>

text \<open>
  The script engine is the runtime's, not the repository's: \<open>new Function(..., body)\<close>
  either raises a \<open>SyntaxError\<close> (\<open>Inl s\<close>, with \<open>s\<close> the text \<open>String\<close> gives for it) or
  yields a function; called with \<open>context.input\<close> and \<open>context.variables\<close> and awaited,
  that function returns a value or raises. A script that never settles is outside the model.
\<close>

type_synonym callable = "jsval \<Rightarrow> jsval \<Rightarrow> thrown + jsval"

type_synonym engine = "string \<Rightarrow> string + callable"

definition createSafeFunction :: "engine \<Rightarrow> string \<Rightarrow> thrown + callable" where
  "createSafeFunction js c =
     (case js c of
        Inl e \<Rightarrow> Inl (ErrorInstance (''Code compilation error: '' @ e))
      | Inr func \<Rightarrow> Inr func)"

text \<open>
  \<open>executeCode\<close>: the \<open>try\<close> block is the first two cases, the \<open>catch\<close> clause is
  \<open>caught\<close>. What the \<open>catch\<close> clause raises leaves the function (\<open>Inl\<close>).
\<close>

definition caught :: "thrown \<Rightarrow> thrown + ExecutionResult" where
  "caught t =
     (case errorMessage t of
        Inl t' \<Rightarrow> Inl t'
      | Inr m \<Rightarrow> Inr \<lparr>success = False, error = Some m, output_value = JUndefined\<rparr>)"

definition executeCode :: "engine \<Rightarrow> string \<Rightarrow> ExecutionContext \<Rightarrow> thrown + ExecutionResult" where
  "executeCode js c context =
     (case createSafeFunction js c of
        Inl t \<Rightarrow> caught t
      | Inr func \<Rightarrow>
          (case func (input context) (variables context) of
             Inl t \<Rightarrow> caught t
           | Inr result \<Rightarrow> Inr \<lparr>success = True, error = None, output_value = result\<rparr>))"

fun evaluateCondition :: "jsval \<Rightarrow> bool" where
  "evaluateCondition (JBool b) = b"
| "evaluateCondition (JNum n) = (n \<noteq> Fin 0)"
| "evaluateCondition (JStr s) = (length s > 0)"
| "evaluateCondition (JArr xs) = (length xs > 0)"
| "evaluateCondition JNull = False"
| "evaluateCondition JUndefined = False"
| "evaluateCondition (JObj kvs) = True"
| "evaluateCondition (JOpaque tag) = True"

section \<open>FlowExecutor\<close>

definition findStartNode :: "CodeNode list \<Rightarrow> Edge list \<Rightarrow> string option" where
  "findStartNode nodes edges =
     (let targetNodes = set (map target edges);
          startNodes = filter (\<lambda>n. node_id n \<notin> targetNodes) nodes
      in case startNodes of [] \<Rightarrow> None | n # _ \<Rightarrow> Some (node_id n))"

definition findNextNode :: "string \<Rightarrow> Edge list \<Rightarrow> jsval \<Rightarrow> string option" where
  "findNextNode currentNodeId edges out =
     (let outgoingEdges = filter (\<lambda>e. source e = currentNodeId) edges in
      if length outgoingEdges = 0 then None
      else if length outgoingEdges = 1 then map_option target (elem_at outgoingEdges 0)
      else
        (let condition = evaluateCondition out in
         if condition \<and> elem_at outgoingEdges 0 \<noteq> None then map_option target (elem_at outgoingEdges 0)
         else if \<not> condition \<and> elem_at outgoingEdges 1 \<noteq> None then map_option target (elem_at outgoingEdges 1)
         else None))"

text \<open>
  The \<open>while\<close> loop of \<open>FlowExecutor.executeFlow\<close>, with its variables as arguments. It
  returns the path and either the last output (the loop ended) or what was thrown inside
  the \<open>try\<close> block. An empty id is falsy, as \<open>null\<close> is.
\<close>

function walk ::
  "engine \<Rightarrow> CodeNode list \<Rightarrow> Edge list \<Rightarrow> string option \<Rightarrow> jsval \<Rightarrow> string set \<Rightarrow> string list
     \<Rightarrow> (thrown + jsval) \<times> string list" where
  "walk js nodes edges currentNodeId currentOutput visited path =
     (case currentNodeId of
        None \<Rightarrow> (Inr currentOutput, path)
      | Some c \<Rightarrow>
          if c = [] \<or> c \<in> visited then (Inr currentOutput, path)
          else
            (case find (\<lambda>n. node_id n = c) nodes of
               None \<Rightarrow> (Inl (ErrorInstance (''Node '' @ c @ '' not found'')), path @ [c])
             | Some currentNode \<Rightarrow>
                 (case executeCode js (code currentNode) \<lparr>input = currentOutput, variables = JObj []\<rparr> of
                    Inl t \<Rightarrow> (Inl t, path @ [c])
                  | Inr result \<Rightarrow>
                      if \<not> success result then
                        (Inl (ErrorInstance (''Node '' @ c @ '' execution failed: '' @
                           (case error result of None \<Rightarrow> ''undefined'' | Some m \<Rightarrow> m))), path @ [c])
                      else
                        walk js nodes edges (findNextNode c edges (output_value result)) (output_value result)
                          (insert c visited) (path @ [c]))))"
  by pat_completeness auto
termination
proof (relation "measure (\<lambda>(js, nodes, edges, cur, out, visited, path). card (set (map node_id nodes) - visited))")
  show "wf (measure (\<lambda>(js, nodes, edges, cur, out, visited, path). card (set (map node_id nodes) - visited)))"
    by simp
next
  fix js :: engine and nodes :: "CodeNode list" and edges :: "Edge list"
    and currentNodeId :: "string option" and currentOutput :: jsval and visited :: "string set"
    and path :: "string list" and c currentNode and result :: ExecutionResult
  assume nv: "\<not> (c = [] \<or> c \<in> visited)"
    and fnd: "find (\<lambda>n. node_id n = c) nodes = Some currentNode"
  from fnd have "currentNode \<in> set nodes" and "node_id currentNode = c"
    by (auto simp: find_Some_iff)
  then have mem: "c \<in> set (map node_id nodes)" by auto
  from nv have "c \<notin> visited" by simp
  with mem have "set (map node_id nodes) - insert c visited \<subset> set (map node_id nodes) - visited"
    by auto
  then have "card (set (map node_id nodes) - insert c visited) < card (set (map node_id nodes) - visited)"
    by (intro psubset_card_mono) auto
  then show "((js, nodes, edges, findNextNode c edges (output_value result), output_value result, insert c visited, path @ [c]),
              (js, nodes, edges, currentNodeId, currentOutput, visited, path))
             \<in> measure (\<lambda>(js, nodes, edges, cur, out, visited, path). card (set (map node_id nodes) - visited))"
    by simp
qed

declare walk.simps [simp del]

text \<open>
  How \<open>FlowExecutor.executeFlow\<close> ends: the \<open>return\<close> after the loop, or the \<open>catch\<close>
  clause; what the \<open>catch\<close> clause raises leaves the function.
\<close>

definition flowResult :: "(thrown + jsval) \<times> string list \<Rightarrow> thrown + FlowExecutionResult" where
  "flowResult ended =
     (case ended of
        (Inr out, path) \<Rightarrow>
          Inr \<lparr>success = True, error = None, finalOutput = out, executionPath = path\<rparr>
      | (Inl t, path) \<Rightarrow>
          (case errorMessage t of
             Inl t' \<Rightarrow> Inl t'
           | Inr m \<Rightarrow>
               Inr \<lparr>success = False, error = Some m, finalOutput = JUndefined,
                    executionPath = path\<rparr>))"

text \<open>\<open>startNodeId || this.findStartNode(nodes, edges)\<close>: an empty id is falsy.\<close>

definition startOf :: "CodeNode list \<Rightarrow> Edge list \<Rightarrow> string option \<Rightarrow> string option" where
  "startOf nodes edges startNodeId =
     (case startNodeId of
        None \<Rightarrow> findStartNode nodes edges
      | Some s \<Rightarrow> if s = [] then findStartNode nodes edges else Some s)"

definition FlowExecutor_executeFlow ::
  "engine \<Rightarrow> CodeNode list \<Rightarrow> Edge list \<Rightarrow> string option \<Rightarrow> thrown + FlowExecutionResult" where
  "FlowExecutor_executeFlow js nodes edges startNodeId =
     (let currentNodeId = startOf nodes edges startNodeId in
      if currentNodeId = None \<or> currentNodeId = Some [] then
        Inr \<lparr>success = False, error = Some ''No start node found'', finalOutput = JUndefined,
             executionPath = []\<rparr>
      else flowResult (walk js nodes edges currentNodeId JNull {} []))"

section \<open>Numbers read from node ids\<close>

text \<open>
  What \<open>parseInt\<close> returns and what subtracting two such values gives: \<open>NaN\<close>, an infinity,
  or a double whose value is a whole number. Doubles carry 53 significant bits, so a whole
  number from \<open>2^53\<close> on is rounded (to nearest, ties to even) and one that rounds to
  \<open>2^1024\<close> or more is an infinity.
\<close>

datatype timeval = NotANumber | PlusInfinity | MinusInfinity | Whole int

function bit_length :: "int \<Rightarrow> nat" where
  "bit_length n = (if n \<le> 0 then 0 else Suc (bit_length (n div 2)))"
  by pat_completeness auto
termination
  by (relation "measure nat") auto

declare bit_length.simps [simp del]

text \<open>The double nearest to a whole number \<open>n \<ge> 0\<close>.\<close>

definition roundNat :: "int \<Rightarrow> timeval" where
  "roundNat n =
     (if n < 2 ^ 53 then Whole n
      else
        (let e = bit_length n - 53;
             q = n div 2 ^ e;
             r = n mod 2 ^ e;
             h = 2 ^ (e - 1);
             q' = (if h < r \<or> (r = h \<and> odd q) then q + 1 else q);
             m = q' * 2 ^ e
         in if 2 ^ 1024 \<le> m then PlusInfinity else Whole m))"

fun negate :: "timeval \<Rightarrow> timeval" where
  "negate NotANumber = NotANumber"
| "negate PlusInfinity = MinusInfinity"
| "negate MinusInfinity = PlusInfinity"
| "negate (Whole x) = Whole (- x)"

definition toDouble :: "int \<Rightarrow> timeval" where
  "toDouble x = (if 0 \<le> x then roundNat x else negate (roundNat (- x)))"

text \<open>The operator \<open>-\<close> on two such Numbers.\<close>

fun js_sub :: "timeval \<Rightarrow> timeval \<Rightarrow> timeval" where
  "js_sub NotANumber b = NotANumber"
| "js_sub a NotANumber = NotANumber"
| "js_sub PlusInfinity PlusInfinity = NotANumber"
| "js_sub PlusInfinity b = PlusInfinity"
| "js_sub MinusInfinity MinusInfinity = NotANumber"
| "js_sub MinusInfinity b = MinusInfinity"
| "js_sub (Whole x) PlusInfinity = MinusInfinity"
| "js_sub (Whole x) MinusInfinity = PlusInfinity"
| "js_sub (Whole x) (Whole y) = toDouble (x - y)"

text \<open>
  Strings are lists of code units below 256. \<open>parseInt\<close> with no radix: leading white
  space is skipped, a sign is read, \<open>0x\<close> or \<open>0X\<close> selects radix 16, and the longest run of
  digits is the value; no digit at all gives \<open>NaN\<close>. The value of the digits is taken
  exactly before it is rounded to a double (the standard also lets an implementation drop
  what follows the twentieth significant digit), and \<open>-0\<close> is \<open>0\<close>.
\<close>

definition isWhiteSpace :: "char \<Rightarrow> bool" where
  "isWhiteSpace c = (c \<in> set [CHR 0x09, CHR 0x0A, CHR 0x0B, CHR 0x0C, CHR 0x0D, CHR 0x20, CHR 0xA0])"

definition digitOf :: "char \<Rightarrow> nat option" where
  "digitOf c =
     (let k = (of_char c :: nat) in
      if 48 \<le> k \<and> k \<le> 57 then Some (k - 48)
      else if 97 \<le> k \<and> k \<le> 102 then Some (k - 87)
      else if 65 \<le> k \<and> k \<le> 70 then Some (k - 55)
      else None)"

definition isDigit :: "nat \<Rightarrow> char \<Rightarrow> bool" where
  "isDigit radix c = (case digitOf c of None \<Rightarrow> False | Some d \<Rightarrow> d < radix)"

definition digitsValue :: "nat \<Rightarrow> string \<Rightarrow> int" where
  "digitsValue radix ds =
     foldl (\<lambda>acc c. acc * int radix + (case digitOf c of None \<Rightarrow> 0 | Some d \<Rightarrow> int d)) 0 ds"

definition parseDigits :: "nat \<Rightarrow> bool \<Rightarrow> string \<Rightarrow> timeval" where
  "parseDigits radix neg s =
     (let z = takeWhile (isDigit radix) s in
      if z = [] then NotANumber
      else if neg then negate (roundNat (digitsValue radix z))
      else roundNat (digitsValue radix z))"

fun parsePrefix :: "bool \<Rightarrow> string \<Rightarrow> timeval" where
  "parsePrefix neg (a # b # s) =
     (if a = CHR ''0'' \<and> (b = CHR ''x'' \<or> b = CHR ''X'') then parseDigits 16 neg s
      else parseDigits 10 neg (a # b # s))"
| "parsePrefix neg s = parseDigits 10 neg s"

fun parseSign :: "string \<Rightarrow> timeval" where
  "parseSign (c # s) =
     (if c = CHR ''-'' then parsePrefix True s
      else if c = CHR ''+'' then parsePrefix False s
      else parsePrefix False (c # s))"
| "parseSign [] = parsePrefix False []"

definition parseInt :: "string \<Rightarrow> timeval" where
  "parseInt s = parseSign (dropWhile isWhiteSpace s)"

text \<open>\<open>s.split(sep)\<close> for a one-character separator: never empty.\<close>

fun split :: "char \<Rightarrow> string \<Rightarrow> string list" where
  "split sep [] = [[]]"
| "split sep (c # cs) =
     (if c = sep then [] # split sep cs
      else (case split sep cs of [] \<Rightarrow> [[c]] | p # ps \<Rightarrow> (c # p) # ps))"

section \<open>The world outside the executor\<close>

text \<open>
  What the exchange with the remote service gives, in the order \<open>executeNode\<close> looks at
  it: \<open>fetch\<close> rejects, \<open>response.json()\<close> rejects (both with an \<open>Error\<close>, carried by its
  message), or there is a status, a status text and a decoded body. \<open>response.ok\<close> is a
  status from 200 to 299.
\<close>

datatype exchange = Rejected string | Undecodable string | Answered nat string jsval

text \<open>
  The clock (\<open>now k\<close> is the text of the \<open>k\<close>-th reading of \<open>new Date().toISOString()\<close> in
  a call), the service (\<open>fetch i\<close> is the exchange made for queue position \<open>i\<close>), and the
  order in which the engine's \<open>Array.prototype.sort\<close> leaves a list whose comparator is
  not consistent on it (\<open>sort_order\<close>): the standard leaves that order to the engine.
\<close>

type_synonym comparator = "CodeNode \<Rightarrow> CodeNode \<Rightarrow> timeval"

record world =
  now :: "nat \<Rightarrow> string"
  fetch :: "nat \<Rightarrow> exchange"
  sort_order :: "comparator \<Rightarrow> CodeNode list \<Rightarrow> CodeNode list"

text \<open>
  \<open>Array.prototype.sort\<close> with a comparator. A comparator result is read by its sign, and
  \<open>NaN\<close> counts as \<open>0\<close>. A comparator is consistent on a list when, on its elements, "same"
  (result \<open>0\<close>) is reflexive, symmetric and transitive, and "before" (result \<open>< 0\<close>) and
  "after" (result \<open>> 0\<close>) are transitive.
\<close>

fun positive :: "timeval \<Rightarrow> bool" where
  "positive PlusInfinity = True"
| "positive (Whole x) = (0 < x)"
| "positive v = False"

fun negative :: "timeval \<Rightarrow> bool" where
  "negative MinusInfinity = True"
| "negative (Whole x) = (x < 0)"
| "negative v = False"

definition same :: "timeval \<Rightarrow> bool" where
  "same v = (\<not> positive v \<and> \<not> negative v)"

definition consistent :: "('a \<Rightarrow> 'a \<Rightarrow> timeval) \<Rightarrow> 'a list \<Rightarrow> bool" where
  "consistent cmp xs =
     list_all (\<lambda>a. same (cmp a a) \<and>
       list_all (\<lambda>b. (if same (cmp a b) then same (cmp b a) else True) \<and>
         list_all (\<lambda>c.
            (if same (cmp a b) \<and> same (cmp b c) then same (cmp a c) else True)
            \<and> (if negative (cmp a b) \<and> negative (cmp b c) then negative (cmp a c) else True)
            \<and> (if positive (cmp a b) \<and> positive (cmp b c) then positive (cmp a c) else True))
           xs) xs) xs"

text \<open>
  On a list where the comparator is consistent the result is fixed: the elements in
  ascending order, elements the comparator takes for the same in the order they had (a
  stable sort). The standard asks for this list when no comparator result is \<open>NaN\<close>; an
  engine sees only the signs and returns it also when \<open>NaN\<close> stood for \<open>0\<close>.
  \<open>stableSort\<close> computes that list by insertion: an element moves right past the elements
  that come strictly before it.
\<close>

fun insertBy :: "('a \<Rightarrow> 'a \<Rightarrow> timeval) \<Rightarrow> 'a \<Rightarrow> 'a list \<Rightarrow> 'a list" where
  "insertBy cmp x [] = [x]"
| "insertBy cmp x (y # ys) = (if positive (cmp x y) then y # insertBy cmp x ys else x # y # ys)"

fun stableSort :: "('a \<Rightarrow> 'a \<Rightarrow> timeval) \<Rightarrow> 'a list \<Rightarrow> 'a list" where
  "stableSort cmp [] = []"
| "stableSort cmp (x # xs) = insertBy cmp x (stableSort cmp xs)"

text \<open>
  \<open>xs.sort(cmp)\<close>: the stable sorted list when the comparator is consistent on \<open>xs\<close>;
  otherwise the elements of \<open>xs\<close> in the order the engine leaves them (an answer of
  \<open>sort_order\<close> that does not hold the same elements is not an engine's, and the list is
  then taken as it stood).
\<close>

definition sortBy :: "world \<Rightarrow> comparator \<Rightarrow> CodeNode list \<Rightarrow> CodeNode list" where
  "sortBy w cmp xs =
     (if consistent cmp xs then stableSort cmp xs
      else (let ys = sort_order w cmp xs in if mset ys = mset xs then ys else xs))"

section \<open>QueueFlowExecutor: the queue\<close>

text \<open>\<open>parseInt(a.id.split('-')[1] || '0')\<close>: an absent or empty second part reads \<open>'0'\<close>.\<close>

definition creationTime :: "CodeNode \<Rightarrow> timeval" where
  "creationTime a =
     parseInt (case elem_at (split (CHR ''-'') (node_id a)) 1 of
                 None \<Rightarrow> ''0''
               | Some t \<Rightarrow> if t = [] then ''0'' else t)"

definition byCreationTime :: comparator where
  "byCreationTime a b = js_sub (creationTime a) (creationTime b)"

definition createExecutionQueue :: "world \<Rightarrow> CodeNode list \<Rightarrow> string list" where
  "createExecutionQueue w nodes =
     (case find (\<lambda>node. node_id node = ''input-node'') nodes of
        None \<Rightarrow> []
      | Some inputNode \<Rightarrow>
          (let connectedNodes = filter (\<lambda>node. node_id node \<noteq> ''input-node'') nodes
           in node_id inputNode # map node_id (sortBy w byCreationTime connectedNodes)))"

section \<open>QueueFlowExecutor: the run\<close>

datatype log_type = Info | Success | Error | Warning

record ExecutionLog =
  nodeId :: string
  nodeName :: string
  timestamp :: string
  log_type :: log_type
  message :: string
  data :: jsval

record QueueExecutionResult = RunResult +
  executionQueue :: "string list"
  completedNodes :: "string list"
  logs :: "ExecutionLog list"

text \<open>
  The callbacks are the caller's code: each may be absent, and a call either returns
  (\<open>None\<close>) or raises. A callback is taken to answer by its argument alone.
\<close>

record Callbacks =
  onNodeStart :: "(string \<Rightarrow> thrown option) option"
  onNodeComplete :: "(string \<Rightarrow> NodeExecutionResult \<Rightarrow> thrown option) option"
  onLog :: "(ExecutionLog \<Rightarrow> thrown option) option"

text \<open>
  What a run did, as seen from outside: the calls it made to the callbacks, and the
  returns of \<open>executeNode\<close> inside \<open>executeFlow\<close> (the node id and the result returned).
\<close>

datatype event =
    NodeStart string
  | NodeComplete string NodeExecutionResult
  | Logged ExecutionLog
  | Executed string NodeExecutionResult

text \<open>
  The variables of one run, the clock readings made so far, and the events so far, in
  order. The variables \<open>logs\<close>, \<open>completedNodes\<close> and \<open>finalOutput\<close> of \<open>executeFlow\<close> are
  \<open>st_logs\<close>, \<open>st_completedNodes\<close> and \<open>st_finalOutput\<close>; the program holds no counterpart
  of \<open>st_ticks\<close> and \<open>st_trace\<close>.
\<close>

record run_state =
  st_logs :: "ExecutionLog list"
  st_completedNodes :: "string list"
  st_finalOutput :: jsval
  st_ticks :: nat
  st_trace :: "event list"

text \<open>
  A statement that may raise: it returns the new state with a value (\<open>Inr\<close>) or with what
  it threw (\<open>Inl\<close>); what it changed before raising stays changed.
\<close>

type_synonym 'a step = "run_state \<Rightarrow> (thrown + 'a) \<times> run_state"

definition returns :: "'a \<Rightarrow> 'a step" where
  "returns x st = (Inr x, st)"

definition throws :: "thrown \<Rightarrow> 'a step" where
  "throws t st = (Inl t, st)"

definition and_then :: "'a step \<Rightarrow> ('a \<Rightarrow> 'b step) \<Rightarrow> 'b step" where
  "and_then m f st = (case m st of (Inl t, st') \<Rightarrow> (Inl t, st') | (Inr x, st') \<Rightarrow> f x st')"

definition try_catch :: "'a step \<Rightarrow> (thrown \<Rightarrow> 'a step) \<Rightarrow> 'a step" where
  "try_catch m handler st = (case m st of (Inl t, st') \<Rightarrow> handler t st' | (Inr x, st') \<Rightarrow> (Inr x, st'))"

text \<open>\<open>String(n)\<close> for a length or a status.\<close>

definition digit_char :: "nat \<Rightarrow> char" where
  "digit_char n = (if n < 10 then ''0123456789'' ! n else CHR ''?'')"

function show_nat :: "nat \<Rightarrow> string" where
  "show_nat n = (if n < 10 then [digit_char n] else show_nat (n div 10) @ [digit_char (n mod 10)])"
  by pat_completeness auto
termination
  by (relation "measure id") auto

declare show_nat.simps [simp del]

text \<open>
  A call of a callback that may be absent: \<open>answer\<close> is \<open>None\<close> when it is absent, else
  what the call does.
\<close>

definition notify :: "thrown option option \<Rightarrow> event \<Rightarrow> unit step" where
  "notify answer c st =
     (case answer of
        None \<Rightarrow> (Inr (), st)
      | Some None \<Rightarrow> (Inr (), st\<lparr>st_trace := st_trace st @ [c]\<rparr>)
      | Some (Some t) \<Rightarrow> (Inl t, st\<lparr>st_trace := st_trace st @ [c]\<rparr>))"

type_synonym logger = "string \<Rightarrow> string \<Rightarrow> log_type \<Rightarrow> string \<Rightarrow> jsval \<Rightarrow> unit step"

text \<open>The closure \<open>addLog\<close> of \<open>executeFlow\<close>; an omitted \<open>data\<close> is \<open>JUndefined\<close>.\<close>

definition addLog :: "Callbacks \<Rightarrow> world \<Rightarrow> logger" where
  "addLog cb w nid nname ty msg d st =
     (let entry = \<lparr>nodeId = nid, nodeName = nname, timestamp = now w (st_ticks st), log_type = ty,
                 message = msg, data = d\<rparr>
      in notify (map_option (\<lambda>f. f entry) (onLog cb)) (Logged entry)
           (st\<lparr>st_ticks := Suc (st_ticks st), st_logs := st_logs st @ [entry]\<rparr>))"

text \<open>The \<open>addLog\<close> that \<open>executeNodeStepByStep\<close> passes: \<open>() => {}\<close>.\<close>

definition noLog :: logger where
  "noLog nid nname ty msg d = returns ()"

record Endpoint =
  ep_name :: string
  ep_path :: string
  ep_method :: string
  ep_payload :: "string option"

definition API_BASE_URL :: string where
  "API_BASE_URL = ''https://python-executor-487010489347.us-central1.run.app''"

text \<open>
  The four call templates. A payload is the \<open>script\<close> sent; its text plays no part in what
  the executor does next and is abbreviated here.
\<close>

definition API_ENDPOINTS :: "Endpoint list" where
  "API_ENDPOINTS =
     [\<lparr>ep_name = ''Health Check'', ep_path = ''/health'', ep_method = ''GET'', ep_payload = None\<rparr>,
      \<lparr>ep_name = ''Basic Function Test'', ep_path = ''/execute'', ep_method = ''POST'',
       ep_payload = Some ''def main(): ...''\<rparr>,
      \<lparr>ep_name = ''Library Test'', ep_path = ''/execute'', ep_method = ''POST'',
       ep_payload = Some ''import pandas as pd ...''\<rparr>,
      \<lparr>ep_name = ''Stdout Capture Test'', ep_path = ''/execute'', ep_method = ''POST'',
       ep_payload = Some ''def main(): print ...''\<rparr>]"

text \<open>
  \<open>API_ENDPOINTS[(nodeIndex - 1) % API_ENDPOINTS.length]\<close>: the remainder of \<open>-1\<close> is \<open>-1\<close>,
  so index 0 reads \<open>undefined\<close>.
\<close>

definition endpointFor :: "nat \<Rightarrow> Endpoint option" where
  "endpointFor nodeIndex =
     (if nodeIndex = 0 then None
      else elem_at API_ENDPOINTS ((nodeIndex - 1) mod length API_ENDPOINTS))"

definition initializedPayload :: "string \<Rightarrow> jsval" where
  "initializedPayload t = JObj [(''status'', JStr ''initialized''), (''timestamp'', JStr t)]"

text \<open>Reading the clock outside \<open>addLog\<close>.\<close>

definition readClock :: "world \<Rightarrow> string step" where
  "readClock w st = (Inr (now w (st_ticks st)), st\<lparr>st_ticks := Suc (st_ticks st)\<rparr>)"

text \<open>The \<open>try\<close> block of \<open>executeNode\<close> (the \<open>console\<close> lines are left out).\<close>

definition callEndpoint :: "world \<Rightarrow> CodeNode \<Rightarrow> nat \<Rightarrow> logger \<Rightarrow> Endpoint \<Rightarrow> NodeExecutionResult step" where
  "callEndpoint w node nodeIndex logf endpoint =
     and_then (logf (node_id node) (label node) Info
                 (''Making '' @ ep_method endpoint @ '' request to '' @ API_BASE_URL @ ep_path endpoint)
                 JUndefined) (\<lambda>_.
       (case fetch w nodeIndex of
          Rejected m \<Rightarrow> throws (ErrorInstance m)
        | Undecodable m \<Rightarrow> throws (ErrorInstance m)
        | Answered status statusText d \<Rightarrow>
            if \<not> (200 \<le> status \<and> status \<le> 299) then
              throws (ErrorInstance (''API request failed: '' @ show_nat status @ '' '' @ statusText))
            else
              and_then (logf (node_id node) (label node) Success ''API call successful'' d) (\<lambda>_.
                returns \<lparr>success = True, error = None, output_value = d,
                         node_logs = [''API call to '' @ ep_name endpoint @ '' successful'']\<rparr>)))"

text \<open>The \<open>catch\<close> clause of \<open>executeNode\<close>.\<close>

definition callFailed :: "CodeNode \<Rightarrow> logger \<Rightarrow> Endpoint \<Rightarrow> thrown \<Rightarrow> NodeExecutionResult step" where
  "callFailed node logf endpoint err =
     (case errorMessage err of
        Inl t \<Rightarrow> throws t
      | Inr m \<Rightarrow>
          and_then (logf (node_id node) (label node) Error (''API call failed: '' @ m) JUndefined) (\<lambda>_.
            returns \<lparr>success = False, error = Some m, output_value = JUndefined,
                     node_logs = [''API call to '' @ ep_name endpoint @ '' failed: '' @ m]\<rparr>))"

definition executeNode :: "world \<Rightarrow> CodeNode \<Rightarrow> nat \<Rightarrow> logger \<Rightarrow> NodeExecutionResult step" where
  "executeNode w node nodeIndex logf =
     (if node_id node = ''input-node'' then
        and_then (logf (node_id node) (label node) Info ''Input node initialized'' JUndefined) (\<lambda>_.
        and_then (readClock w) (\<lambda>t.
          returns \<lparr>success = True, error = None, output_value = initializedPayload t,
                   node_logs = [''Input node initialized'']\<rparr>))
      else
        (case endpointFor nodeIndex of
           None \<Rightarrow> throws (ErrorInstance ''Cannot read properties of undefined'')
         | Some endpoint \<Rightarrow>
             and_then (logf (node_id node) (label node) Info
                         (''Using API endpoint: '' @ ep_name endpoint) JUndefined) (\<lambda>_.
               try_catch (callEndpoint w node nodeIndex logf endpoint)
                 (callFailed node logf endpoint))))"

text \<open>
  The body of the \<open>for\<close> loop of \<open>executeFlow\<close>: \<open>settle\<close> is the inner \<open>try\<close> block,
  \<open>settleFailed\<close> the inner \<open>catch\<close> clause. The delay between nodes changes nothing the
  model holds and is left out. \<open>observe\<close> writes an event down and does nothing else: it
  marks the point where \<open>executeNode\<close> has returned.
\<close>

definition recordSuccess :: "string \<Rightarrow> jsval \<Rightarrow> unit step" where
  "recordSuccess nid out st =
     (Inr (), st\<lparr>st_finalOutput := out, st_completedNodes := st_completedNodes st @ [nid]\<rparr>)"

definition observe :: "event \<Rightarrow> unit step" where
  "observe e st = (Inr (), st\<lparr>st_trace := st_trace st @ [e]\<rparr>)"

definition settle :: "Callbacks \<Rightarrow> world \<Rightarrow> CodeNode \<Rightarrow> string \<Rightarrow> nat \<Rightarrow> unit step" where
  "settle cb w node nid i =
     and_then (executeNode w node i (addLog cb w)) (\<lambda>result.
     and_then (observe (Executed nid result)) (\<lambda>_.
     and_then
       (if success result then
          and_then (recordSuccess nid (output_value result)) (\<lambda>_.
            addLog cb w nid (label node) Success ''Node executed successfully'' (output_value result))
        else
          addLog cb w nid (label node) Error
            (case error result of
               None \<Rightarrow> ''Execution failed''
             | Some m \<Rightarrow> if m = [] then ''Execution failed'' else m)
            JUndefined) (\<lambda>_.
     notify (map_option (\<lambda>f. f nid result) (onNodeComplete cb)) (NodeComplete nid result))))"

definition failedResult :: "string \<Rightarrow> NodeExecutionResult" where
  "failedResult m = \<lparr>success = False, error = Some m, output_value = JUndefined, node_logs = []\<rparr>"

definition settleFailed :: "Callbacks \<Rightarrow> world \<Rightarrow> CodeNode \<Rightarrow> string \<Rightarrow> thrown \<Rightarrow> unit step" where
  "settleFailed cb w node nid err =
     (case errorMessage err of
        Inl t \<Rightarrow> throws t
      | Inr m \<Rightarrow>
          and_then (addLog cb w nid (label node) Error (''Execution error: '' @ m) JUndefined) (\<lambda>_.
            notify (map_option (\<lambda>f. f nid (failedResult m)) (onNodeComplete cb))
              (NodeComplete nid (failedResult m))))"

definition processEntry :: "Callbacks \<Rightarrow> world \<Rightarrow> CodeNode list \<Rightarrow> nat \<Rightarrow> string \<Rightarrow> unit step" where
  "processEntry cb w nodes i nid =
     (case find (\<lambda>n. node_id n = nid) nodes of
        None \<Rightarrow> addLog cb w nid ''Unknown'' Error ''Node not found in workflow'' JUndefined
      | Some node \<Rightarrow>
          and_then (addLog cb w nid (label node) Info (''Executing node: '' @ label node) JUndefined) (\<lambda>_.
          and_then (notify (map_option (\<lambda>f. f nid) (onNodeStart cb)) (NodeStart nid)) (\<lambda>_.
            try_catch (settle cb w node nid i) (settleFailed cb w node nid))))"

text \<open>The \<open>for\<close> loop over \<open>executionQueue\<close>, from index \<open>i\<close> on.\<close>

fun runQueue :: "Callbacks \<Rightarrow> world \<Rightarrow> CodeNode list \<Rightarrow> nat \<Rightarrow> string list \<Rightarrow> unit step" where
  "runQueue cb w nodes i [] st = (Inr (), st)"
| "runQueue cb w nodes i (nid # rest) st =
     (case processEntry cb w nodes i nid st of
        (Inl t, st') \<Rightarrow> (Inl t, st')
      | (Inr u, st') \<Rightarrow> runQueue cb w nodes (Suc i) rest st')"

definition initialState :: run_state where
  "initialState = \<lparr>st_logs = [], st_completedNodes = [], st_finalOutput = JNull, st_ticks = 0,
                    st_trace = []\<rparr>"

text \<open>The two \<open>return\<close> statements of \<open>executeFlow\<close>, reading the variables of the run.\<close>

definition completed :: "string list \<Rightarrow> QueueExecutionResult step" where
  "completed queue st =
     (Inr \<lparr>success = True, error = None, finalOutput = st_finalOutput st, executionQueue = queue,
           completedNodes = st_completedNodes st, logs = st_logs st\<rparr>, st)"

definition aborted :: "string list \<Rightarrow> string \<Rightarrow> QueueExecutionResult step" where
  "aborted queue m st =
     (Inr \<lparr>success = False, error = Some m, finalOutput = JUndefined, executionQueue = queue,
           completedNodes = st_completedNodes st, logs = st_logs st\<rparr>, st)"

text \<open>The outer \<open>try\<close> block and the outer \<open>catch\<close> clause.\<close>

definition runAll :: "Callbacks \<Rightarrow> world \<Rightarrow> CodeNode list \<Rightarrow> string list \<Rightarrow> QueueExecutionResult step" where
  "runAll cb w nodes queue =
     and_then (runQueue cb w nodes 0 queue) (\<lambda>_.
     and_then (addLog cb w ''system'' ''System'' Success ''Workflow execution completed successfully''
                 JUndefined) (\<lambda>_.
       completed queue))"

definition runFailed :: "Callbacks \<Rightarrow> world \<Rightarrow> string list \<Rightarrow> thrown \<Rightarrow> QueueExecutionResult step" where
  "runFailed cb w queue err =
     (case errorMessage err of
        Inl t \<Rightarrow> throws t
      | Inr m \<Rightarrow>
          and_then (addLog cb w ''system'' ''System'' Error (''Workflow execution failed: '' @ m)
                      JUndefined) (\<lambda>_.
            aborted queue m))"

text \<open>
  \<open>QueueFlowExecutor.executeFlow\<close>: what the call returns or raises, and the events of
  the run. The edges are a parameter the function never reads.
\<close>

definition QueueFlowExecutor_executeFlow ::
  "Callbacks \<Rightarrow> world \<Rightarrow> CodeNode list \<Rightarrow> Edge list \<Rightarrow> (thrown + QueueExecutionResult) \<times> event list" where
  "QueueFlowExecutor_executeFlow cb w nodes edges =
     (let executionQueue = createExecutionQueue w nodes;
          (r, st) =
            and_then
              (addLog cb w ''system'' ''System'' Info
                 (''Starting workflow execution with '' @ show_nat (length executionQueue) @ '' nodes'')
                 JUndefined) (\<lambda>_.
              try_catch (runAll cb w nodes executionQueue) (runFailed cb w executionQueue))
              initialState
      in (r, st_trace st))"

text \<open>
  \<open>executeNodeStepByStep\<close>. The cursor is a whole number; \<open>executionQueue[currentStep]\<close>
  is \<open>undefined\<close> for a negative one, and no node has the id \<open>undefined\<close>.
\<close>

definition noMoreNodes :: NodeExecutionResult where
  "noMoreNodes = \<lparr>success = False, error = Some ''No more nodes to execute'',
                   output_value = JUndefined, node_logs = []\<rparr>"

definition nodeNotFound :: NodeExecutionResult where
  "nodeNotFound = \<lparr>success = False, error = Some ''Node not found'',
                    output_value = JUndefined, node_logs = []\<rparr>"

definition executeNodeStepByStep ::
  "world \<Rightarrow> CodeNode list \<Rightarrow> int \<Rightarrow> thrown + NodeExecutionResult \<times> bool" where
  "executeNodeStepByStep w nodes currentStep =
     (let executionQueue = createExecutionQueue w nodes in
      if int (length executionQueue) \<le> currentStep then Inr (noMoreNodes, False)
      else
        (case (if currentStep < 0 then None else elem_at executionQueue (nat currentStep)) of
           None \<Rightarrow> Inr (nodeNotFound, currentStep + 1 < int (length executionQueue))
         | Some nid \<Rightarrow>
             (case find (\<lambda>n. node_id n = nid) nodes of
                None \<Rightarrow> Inr (nodeNotFound, currentStep + 1 < int (length executionQueue))
              | Some node \<Rightarrow>
                  (case executeNode w node (nat currentStep) noLog initialState of
                     (Inl t, st) \<Rightarrow> Inl t
                   | (Inr result, st) \<Rightarrow>
                       Inr (result, currentStep + 1 < int (length executionQueue))))))"

section \<open>Notions for stating the properties\<close>

text \<open>The callbacks return normally, whatever they are called with.\<close>

definition quietLog :: "Callbacks \<Rightarrow> bool" where
  "quietLog cb = (\<forall>f entry. onLog cb = Some f \<longrightarrow> f entry = None)"

definition quiet :: "Callbacks \<Rightarrow> bool" where
  "quiet cb =
     (quietLog cb
      \<and> (\<forall>f nid. onNodeStart cb = Some f \<longrightarrow> f nid = None)
      \<and> (\<forall>f nid r. onNodeComplete cb = Some f \<longrightarrow> f nid r = None))"

text \<open>
  The exchange made for queue position \<open>i\<close> ends in a response with a status from 200 to
  299; the body decoded from it.
\<close>

definition dispatchOk :: "world \<Rightarrow> nat \<Rightarrow> bool" where
  "dispatchOk w i =
     (case fetch w i of Answered status statusText d \<Rightarrow> 200 \<le> status \<and> status \<le> 299 | _ \<Rightarrow> False)"

definition dispatchData :: "world \<Rightarrow> nat \<Rightarrow> jsval" where
  "dispatchData w i = (case fetch w i of Answered status statusText d \<Rightarrow> d | _ \<Rightarrow> JUndefined)"

text \<open>
  Whether the node at queue position \<open>i\<close> succeeds, and its output then. In a run the entry
  node is executed after three readings of the clock, so its payload holds the fourth.
\<close>

definition succeeds :: "world \<Rightarrow> nat \<Rightarrow> string \<Rightarrow> bool" where
  "succeeds w i nid = (nid = ''input-node'' \<or> dispatchOk w i)"

definition outputOf :: "world \<Rightarrow> nat \<Rightarrow> string \<Rightarrow> jsval" where
  "outputOf w i nid = (if nid = ''input-node'' then initializedPayload (now w 3) else dispatchData w i)"

text \<open>Node id and severity of each log record; the records a node leaves in a run.\<close>

definition marks :: "ExecutionLog list \<Rightarrow> (string \<times> log_type) list" where
  "marks ls = map (\<lambda>l. (nodeId l, log_type l)) ls"

definition nodeMarks :: "world \<Rightarrow> nat \<Rightarrow> string \<Rightarrow> (string \<times> log_type) list" where
  "nodeMarks w i nid =
     (if nid = ''input-node'' then [(nid, Info), (nid, Info), (nid, Success)]
      else if dispatchOk w i then [(nid, Info), (nid, Info), (nid, Info), (nid, Success), (nid, Success)]
      else [(nid, Info), (nid, Info), (nid, Info), (nid, Error), (nid, Error)])"

text \<open>
  The order of two Numbers that are not \<open>NaN\<close>: \<open>-Infinity\<close> first, \<open>Infinity\<close> last, whole
  numbers by value.
\<close>

fun time_le :: "timeval \<Rightarrow> timeval \<Rightarrow> bool" where
  "time_le NotANumber b = False"
| "time_le a NotANumber = False"
| "time_le MinusInfinity b = True"
| "time_le a PlusInfinity = True"
| "time_le (Whole x) (Whole y) = (x \<le> y)"
| "time_le a b = False"

text \<open>
  The claim's reading of an id, for comparison with the code: its numeric token is the
  whole number that the second \<open>-\<close>-separated part begins with, taken exactly, and 0 when
  there is no such number.
\<close>

definition claimedToken :: "string \<Rightarrow> int" where
  "claimedToken i =
     (case elem_at (split (CHR ''-'') i) 1 of
        None \<Rightarrow> 0
      | Some t \<Rightarrow>
          (let z = takeWhile (isDigit 10) t in if z = [] then 0 else digitsValue 10 z))"

text \<open>
  The calls made to \<open>onNodeStart\<close>, and those made to \<open>onNodeComplete\<close> with the success
  flag passed.
\<close>

fun startedIds :: "event list \<Rightarrow> string list" where
  "startedIds [] = []"
| "startedIds (NodeStart nid # cs) = nid # startedIds cs"
| "startedIds (c # cs) = startedIds cs"

fun completions :: "event list \<Rightarrow> (string \<times> bool) list" where
  "completions [] = []"
| "completions (NodeComplete nid r # cs) = (nid, success r) # completions cs"
| "completions (c # cs) = completions cs"

text \<open>
  The returns of \<open>executeNode\<close> in a run, in order, each with the id of its queue entry;
  those among them with \<open>success: true\<close>.
\<close>

fun executed :: "event list \<Rightarrow> (string \<times> NodeExecutionResult) list" where
  "executed [] = []"
| "executed (Executed nid r # es) = (nid, r) # executed es"
| "executed (e # es) = executed es"

definition succeeded :: "event list \<Rightarrow> (string \<times> NodeExecutionResult) list" where
  "succeeded tr = filter (\<lambda>(nid, r). success r) (executed tr)"

text \<open>
  A statement keeps the account of a run when it changes neither \<open>completedNodes\<close> nor
  \<open>finalOutput\<close> and no \<open>executeNode\<close> returns in it. The account is right when
  \<open>completedNodes\<close> holds the ids of the successful returns so far and \<open>finalOutput\<close> the
  output of the last of them, \<open>null\<close> when there is none.
\<close>

definition untouched :: "run_state \<Rightarrow> run_state \<Rightarrow> bool" where
  "untouched st st' =
     (st_completedNodes st' = st_completedNodes st \<and> st_finalOutput st' = st_finalOutput st
      \<and> executed (st_trace st') = executed (st_trace st))"

definition keeps :: "'a step \<Rightarrow> bool" where
  "keeps m = (\<forall>st. untouched st (snd (m st)))"

definition accounted :: "run_state \<Rightarrow> bool" where
  "accounted st =
     (st_completedNodes st = map fst (succeeded (st_trace st))
      \<and> st_finalOutput st = last (JNull # map (\<lambda>(nid, r). output_value r) (succeeded (st_trace st))))"

section \<open>Sample inputs\<close>

definition mkEdge :: "string \<Rightarrow> string \<Rightarrow> Edge" where
  "mkEdge a b = \<lparr>edge_id = a @ ''-'' @ b, source = a, target = b\<rparr>"

definition mkNode :: "string \<Rightarrow> string \<Rightarrow> CodeNode" where
  "mkNode i c = \<lparr>node_id = i, label = i, code = c\<rparr>"

text \<open>
  What the runtime does with four script texts; any other text is taken not to compile.
  The fourth throws an object whose \<open>toString\<close> throws \<open>1\<close>: it is no \<open>Error\<close>, and
  \<open>String\<close> applied to it raises \<open>1\<close>.
\<close>

definition sample_engine :: engine where
  "sample_engine c =
     (if c = ''return 1'' then Inr (\<lambda>i v. Inr (JNum (Fin 1)))
      else if c = ''return 0'' then Inr (\<lambda>i v. Inr (JNum (Fin 0)))
      else if c = ''throw new Error(7)'' then Inr (\<lambda>i v. Inl (ErrorInstance ''7''))
      else if c = ''throw { toString() { throw 1 } }'' then Inr (\<lambda>i v. Inl (Opaque (OtherValue ''1'')))
      else Inl ''SyntaxError: Unexpected token'')"

definition fork3 :: "Edge list" where
  "fork3 = [mkEdge ''a'' ''b'', mkEdge ''a'' ''c'', mkEdge ''a'' ''d'']"

definition cycle_nodes :: "CodeNode list" where
  "cycle_nodes = [mkNode ''a'' ''return 1'', mkNode ''b'' ''return 0'']"

definition cycle_edges :: "Edge list" where
  "cycle_edges = [mkEdge ''a'' ''b'', mkEdge ''b'' ''a'']"

definition dangling_edges :: "Edge list" where
  "dangling_edges = [mkEdge ''a'' ''x'']"

definition no_callbacks :: Callbacks where
  "no_callbacks = \<lparr>onNodeStart = None, onNodeComplete = None, onLog = None\<rparr>"

text \<open>
  A clock that counts, a service that cannot be reached for position 1 and answers 200
  elsewhere, and an engine that sorts by insertion whatever the comparator.
\<close>

definition sample_world :: world where
  "sample_world =
     \<lparr>now = show_nat,
      fetch = (\<lambda>i. if i = 1 then Rejected ''Failed to fetch'' else Answered 200 ''OK'' (JStr ''pong'')),
      sort_order = stableSort\<rparr>"

text \<open>
  The order V8 gives an array of fewer than 64 elements. The run the array begins with is
  found (ascending, or strictly descending and then reversed); each later element is then
  put into the sorted part in front of it, at the place a binary search finds: the search
  goes left when the comparator, called with the element and the middle one, answers
  \<open>< 0\<close>, and right otherwise. (A longer array is sorted in several such runs, which are
  then merged; the sample does not follow that.)
\<close>

fun runLength :: "bool \<Rightarrow> comparator \<Rightarrow> CodeNode \<Rightarrow> CodeNode list \<Rightarrow> nat" where
  "runLength descending cmp previous [] = 0"
| "runLength descending cmp previous (x # xs) =
     (if negative (cmp x previous) = descending then Suc (runLength descending cmp x xs) else 0)"

function binarySearch :: "comparator \<Rightarrow> CodeNode \<Rightarrow> CodeNode list \<Rightarrow> nat \<Rightarrow> nat \<Rightarrow> nat" where
  "binarySearch cmp pivot sorted_part left right =
     (if left < right then
        (let mid = left + (right - left) div 2 in
         if negative (cmp pivot (sorted_part ! mid)) then binarySearch cmp pivot sorted_part left mid
         else binarySearch cmp pivot sorted_part (Suc mid) right)
      else left)"
  by pat_completeness auto
termination
  by (relation "measure (\<lambda>(cmp, pivot, sorted_part, left, right). right - left)") auto

declare binarySearch.simps [simp del]

definition binaryInsert :: "comparator \<Rightarrow> CodeNode list \<Rightarrow> CodeNode \<Rightarrow> CodeNode list" where
  "binaryInsert cmp sorted_part pivot =
     (let k = binarySearch cmp pivot sorted_part 0 (length sorted_part)
      in take k sorted_part @ pivot # drop k sorted_part)"

fun v8_order :: "comparator \<Rightarrow> CodeNode list \<Rightarrow> CodeNode list" where
  "v8_order cmp (a # b # rest) =
     (let descending = negative (cmp b a);
          n = 2 + runLength descending cmp b rest;
          run = take n (a # b # rest)
      in foldl (binaryInsert cmp) (if descending then rev run else run) (drop n (a # b # rest)))"
| "v8_order cmp xs = xs"

definition v8_world :: world where
  "v8_world = sample_world\<lparr>sort_order := v8_order\<rparr>"

text \<open>
  An \<open>onNodeStart\<close> that throws an \<open>Error\<close>, one that does so for \<open>node-1000\<close> only, and an
  \<open>onNodeComplete\<close> that throws one when it is passed a successful result.
\<close>

definition failing_start :: Callbacks where
  "failing_start =
     \<lparr>onNodeStart = Some (\<lambda>nid. Some (ErrorInstance ''halt'')), onNodeComplete = None, onLog = None\<rparr>"

definition failing_second :: Callbacks where
  "failing_second =
     \<lparr>onNodeStart = Some (\<lambda>nid. if nid = ''node-1000'' then Some (ErrorInstance ''halt'') else None),
      onNodeComplete = None, onLog = None\<rparr>"

definition failing_complete :: Callbacks where
  "failing_complete =
     \<lparr>onNodeStart = None,
      onNodeComplete = Some (\<lambda>nid r. if success r then Some (ErrorInstance ''render failed'') else None),
      onLog = None\<rparr>"

text \<open>
  An \<open>onNodeStart\<close> that throws an object whose \<open>toString\<close> throws \<open>1\<close>, as the fourth
  script of \<open>sample_engine\<close> does.
\<close>

definition unprintable_start :: Callbacks where
  "unprintable_start =
     \<lparr>onNodeStart = Some (\<lambda>nid. Some (Opaque (OtherValue ''1''))), onNodeComplete = None, onLog = None\<rparr>"

definition entry_node :: CodeNode where
  "entry_node = \<lparr>node_id = ''input-node'', label = ''Input'', code = []\<rparr>"

text \<open>
  The scenario of the specification, in another order; the entry node with one other
  node.
\<close>

definition scenario_nodes :: "CodeNode list" where
  "scenario_nodes = [mkNode ''node-2000'' [], entry_node, mkNode ''node-1000'' []]"

definition two_nodes :: "CodeNode list" where
  "two_nodes = [entry_node, mkNode ''node-1000'' []]"

text \<open>
  Two ids whose tokens differ by one beyond \<open>2^53\<close>, and an id whose token is not a number.
\<close>

definition big_nodes :: "CodeNode list" where
  "big_nodes = [entry_node, mkNode ''node-9007199254740993'' [], mkNode ''node-9007199254740992'' []]"

definition odd_nodes :: "CodeNode list" where
  "odd_nodes = [entry_node, mkNode ''node-5'' [], mkNode ''node-abc'' []]"

text \<open>
  A list on which the comparator is not consistent: \<open>node-abc\<close> is the same as every other
  node, and these differ.
\<close>

definition mixed_nodes :: "CodeNode list" where
  "mixed_nodes =
     [entry_node, mkNode ''node-5'' [], mkNode ''node-1'' [], mkNode ''node-abc'' [], mkNode ''node-0'' []]"

section \<open>Properties of CodeExecutor and FlowExecutor\<close>

lemmas sample_defs = cycle_nodes_def cycle_edges_def dangling_edges_def fork3_def mkNode_def mkEdge_def
  sample_engine_def

lemmas flow_defs = FlowExecutor_executeFlow_def startOf_def findStartNode_def findNextNode_def
  flowResult_def executeCode_def createSafeFunction_def caught_def

lemma findNextNode_two_or_more:
  assumes "filter (\<lambda>e. source e = n) edges = e1 # e2 # rest"
  shows "findNextNode n edges out = Some (if evaluateCondition out then target e1 else target e2)"
  using assms by (simp add: findNextNode_def Let_def)

text \<open>
  C3: a node with exactly two outgoing edges is followed by the target of the first edge
  when \<open>evaluateCondition\<close> holds of its output and by the target of the second when it does
  not. \<open>evaluateCondition\<close> returns a boolean as it is, holds of a number that is not zero, of
  a non-empty string and of a non-empty array, fails for \<open>null\<close> and \<open>undefined\<close>, and holds
  of every other value; so it fails for \<open>0\<close>, \<open>""\<close>, \<open>[]\<close> and holds for \<open>{}\<close>, \<open>"x"\<close>, \<open>1\<close>,
  \<open>true\<close>.
\<close>

theorem two_edges_route_by_condition:
  "(filter (\<lambda>e. source e = n) edges = [e1, e2] \<longrightarrow>
      findNextNode n edges out = Some (if evaluateCondition out then target e1 else target e2))
   \<and> evaluateCondition (JBool b) = b
   \<and> evaluateCondition (JNum x) = (x \<noteq> Fin 0)
   \<and> evaluateCondition (JStr s) = (s \<noteq> [])
   \<and> evaluateCondition (JArr xs) = (xs \<noteq> [])
   \<and> \<not> evaluateCondition JNull
   \<and> \<not> evaluateCondition JUndefined
   \<and> evaluateCondition (JObj kvs)
   \<and> evaluateCondition (JOpaque tag)
   \<and> \<not> evaluateCondition (JNum (Fin 0)) \<and> \<not> evaluateCondition (JStr []) \<and> \<not> evaluateCondition (JArr [])
   \<and> evaluateCondition (JObj []) \<and> evaluateCondition (JStr ''x'') \<and> evaluateCondition (JNum (Fin 1))
   \<and> evaluateCondition (JBool True)"
  by (simp add: findNextNode_two_or_more)

theorem two_edges_route_by_condition_witness:
  "filter (\<lambda>e. source e = ''a'') [mkEdge ''a'' ''b'', mkEdge ''x'' ''y'', mkEdge ''a'' ''c'']
     = [mkEdge ''a'' ''b'', mkEdge ''a'' ''c'']
   \<and> findNextNode ''a'' [mkEdge ''a'' ''b'', mkEdge ''x'' ''y'', mkEdge ''a'' ''c''] (JNum (Fin 0)) = Some ''c''
   \<and> findNextNode ''a'' [mkEdge ''a'' ''b'', mkEdge ''x'' ''y'', mkEdge ''a'' ''c''] (JObj []) = Some ''b''"
  using
    two_edges_route_by_condition [of "''a''" "[mkEdge ''a'' ''b'', mkEdge ''x'' ''y'', mkEdge ''a'' ''c'']"
      "mkEdge ''a'' ''b''" "mkEdge ''a'' ''c''" "JNum (Fin 0)"]
    two_edges_route_by_condition [of "''a''" "[mkEdge ''a'' ''b'', mkEdge ''x'' ''y'', mkEdge ''a'' ''c'']"
      "mkEdge ''a'' ''b''" "mkEdge ''a'' ''c''" "JObj []"]
  by (simp add: mkEdge_def)

text \<open>
  C6, as the claim states it, fails: with three outgoing edges and a truthy output
  \<open>findNextNode\<close> does not answer \<open>null\<close>.
\<close>

theorem three_edges_not_terminal:
  "length (filter (\<lambda>e. source e = ''a'') fork3) = 3 \<and> findNextNode ''a'' fork3 (JBool True) \<noteq> None"
  by (simp add: fork3_def mkEdge_def findNextNode_def)

text \<open>
  C6, amended: a node with more than two outgoing edges is routed as a node with two is,
  to the target of the first edge when \<open>evaluateCondition\<close> holds of the output and to the
  target of the second when it does not; the third and later edges are never followed.
\<close>

theorem more_edges_route_as_two:
  "filter (\<lambda>e. source e = n) edges = e1 # e2 # e3 # rest \<Longrightarrow>
     findNextNode n edges out = Some (if evaluateCondition out then target e1 else target e2)"
  by (rule findNextNode_two_or_more)

theorem more_edges_route_as_two_witness:
  "filter (\<lambda>e. source e = ''a'') fork3 = mkEdge ''a'' ''b'' # mkEdge ''a'' ''c'' # mkEdge ''a'' ''d'' # []
   \<and> findNextNode ''a'' fork3 (JStr []) = Some ''c''"
  using more_edges_route_as_two [of "''a''" fork3 "mkEdge ''a'' ''b''" "mkEdge ''a'' ''c''"
      "mkEdge ''a'' ''d''" "[]" "JStr []"]
  by (simp add: fork3_def mkEdge_def)

lemma executeCode_syntax_error:
  "js c = Inl e \<Longrightarrow>
     executeCode js c context =
       Inr \<lparr>success = False, error = Some (''Code compilation error: '' @ e), output_value = JUndefined\<rparr>"
  by (simp add: executeCode_def createSafeFunction_def caught_def)

lemma executeCode_runtime_error:
  "js c = Inr func \<Longrightarrow> func (input context) (variables context) = Inl t \<Longrightarrow> errorMessage t = Inr m \<Longrightarrow>
     executeCode js c context = Inr \<lparr>success = False, error = Some m, output_value = JUndefined\<rparr>"
  by (simp add: executeCode_def createSafeFunction_def caught_def)

lemma executeCode_escapes_iff:
  "(\<exists>t. executeCode js c context = Inl t) \<longleftrightarrow>
     (\<exists>func t t'. js c = Inr func \<and> func (input context) (variables context) = Inl t
        \<and> errorMessage t = Inl t')"
  by (auto simp: executeCode_def createSafeFunction_def caught_def split: sum.splits)

text \<open>
  C5 at the script \<open>throw { toString() { throw 1 } }\<close>: the \<open>catch\<close> clause of \<open>executeCode\<close>
  evaluates \<open>String(error)\<close>, which raises \<open>1\<close>, and the call raises instead of returning a
  failed result.
\<close>

theorem executeCode_raises_on_unprintable:
  "executeCode sample_engine ''throw { toString() { throw 1 } }''
     \<lparr>input = JUndefined, variables = JUndefined\<rparr> = Inl (OtherValue ''1'')"
  by (simp add: executeCode_def createSafeFunction_def caught_def sample_engine_def)

lemma walk_distinct:
  "distinct path \<Longrightarrow> set path \<subseteq> visited \<Longrightarrow>
     distinct (snd (walk js nodes edges cur out visited path))"
proof (induction js nodes edges cur out visited path rule: walk.induct)
  case (1 js nodes edges cur out visited path)
  show ?case
  proof (cases cur)
    case None
    with "1.prems" show ?thesis by (simp add: walk.simps)
  next
    case (Some c)
    show ?thesis
    proof (cases "c = [] \<or> c \<in> visited")
      case True
      with Some "1.prems" show ?thesis by (simp add: walk.simps)
    next
      case False
      then have fresh: "c \<notin> set path" using "1.prems" by auto
      have d: "distinct (path @ [c])" using fresh "1.prems" by simp
      have s: "set (path @ [c]) \<subseteq> insert c visited" using "1.prems" by auto
      show ?thesis
      proof (cases "find (\<lambda>n. node_id n = c) nodes")
        case None
        with Some False d show ?thesis by (simp add: walk.simps)
      next
        case found: (Some node)
        show ?thesis
        proof (cases "executeCode js (code node) \<lparr>input = out, variables = JObj []\<rparr>")
          case (Inl t)
          with Some found False d show ?thesis by (simp add: walk.simps)
        next
          case (Inr result)
          show ?thesis
          proof (cases "success result")
            case True
            from "1.IH" [OF Some False found Inr _ d s] True
            have "distinct (snd (walk js nodes edges (findNextNode c edges (output_value result))
                     (output_value result) (insert c visited) (path @ [c])))" by simp
            with Some found False Inr True show ?thesis
              by (subst walk.simps) simp
          next
            case failed: False
            with Some found \<open>\<not> (c = [] \<or> c \<in> visited)\<close> Inr d show ?thesis by (subst walk.simps) simp
          qed
        qed
      qed
    qed
  qed
qed

lemma flowResult_path:
  "flowResult (e, p) = Inr r \<Longrightarrow> executionPath r = p"
  by (auto simp: flowResult_def split: sum.splits)

text \<open>
  C4: the \<open>executionPath\<close> that \<open>FlowExecutor.executeFlow\<close> returns holds no id twice,
  whatever the graph; and a run that comes to an id it has visited ends there with
  \<open>success: true\<close>, the path and the output as they stand. (The loop is a total function:
  every run ends.)
\<close>

theorem path_never_repeats:
  "(FlowExecutor_executeFlow js nodes edges startNodeId = Inr r \<longrightarrow> distinct (executionPath r))
   \<and> (cur \<in> visited \<longrightarrow>
        flowResult (walk js nodes edges (Some cur) out visited path) =
          Inr \<lparr>success = True, error = None, finalOutput = out, executionPath = path\<rparr>)"
proof (intro conjI impI)
  assume run: "FlowExecutor_executeFlow js nodes edges startNodeId = Inr r"
  show "distinct (executionPath r)"
  proof (cases "startOf nodes edges startNodeId = None \<or> startOf nodes edges startNodeId = Some []")
    case True
    with run show ?thesis by (auto simp: FlowExecutor_executeFlow_def)
  next
    case False
    with run have "flowResult (walk js nodes edges (startOf nodes edges startNodeId) JNull {} []) = Inr r"
      by (simp add: FlowExecutor_executeFlow_def)
    then have "executionPath r = snd (walk js nodes edges (startOf nodes edges startNodeId) JNull {} [])"
      by (metis flowResult_path prod.collapse)
    then show ?thesis using walk_distinct [of "[]" "{}"] by simp
  qed
next
  assume "cur \<in> visited"
  then show "flowResult (walk js nodes edges (Some cur) out visited path) =
          Inr \<lparr>success = True, error = None, finalOutput = out, executionPath = path\<rparr>"
    by (simp add: walk.simps flowResult_def)
qed


theorem path_never_repeats_witness:
  "FlowExecutor_executeFlow sample_engine cycle_nodes cycle_edges (Some ''a'') =
     Inr \<lparr>success = True, error = None, finalOutput = JNum (Fin 0), executionPath = [''a'', ''b'']\<rparr>
   \<and> distinct (executionPath \<lparr>success = True, error = None, finalOutput = JNum (Fin 0), executionPath = [''a'', ''b'']\<rparr>)
   \<and> ''a'' \<in> {''a'', ''b''}
   \<and> flowResult (walk sample_engine cycle_nodes cycle_edges (Some ''a'') (JNum (Fin 0)) {''a'', ''b''} [''a'', ''b'']) =
       Inr \<lparr>success = True, error = None, finalOutput = JNum (Fin 0), executionPath = [''a'', ''b'']\<rparr>"
proof -
  have run: "FlowExecutor_executeFlow sample_engine cycle_nodes cycle_edges (Some ''a'') =
     Inr \<lparr>success = True, error = None, finalOutput = JNum (Fin 0), executionPath = [''a'', ''b'']\<rparr>"
    by (simp add: flow_defs sample_defs walk.simps)
  have mem: "''a'' \<in> {''a'', ''b''}" by simp
  from path_never_repeats [of sample_engine cycle_nodes cycle_edges "Some ''a''" _ "''a''" "{''a'', ''b''}" "JNum (Fin 0)" "[''a'', ''b'']"]
    run mem
  show ?thesis by blast
qed

text \<open>
  C10: when the loop comes to an id that no node has (the target of a dangling edge, or
  a given \<open>startNodeId\<close>), the id is put on the path before the lookup fails: the result is
  a failure whose message names the id and whose \<open>executionPath\<close> ends with it.
\<close>

theorem dangling_id_ends_path:
  "(cur \<noteq> [] \<and> cur \<notin> visited \<and> cur \<notin> set (map node_id nodes) \<longrightarrow>
      flowResult (walk js nodes edges (Some cur) out visited path) =
        Inr \<lparr>success = False, error = Some (''Node '' @ cur @ '' not found''),
             finalOutput = JUndefined, executionPath = path @ [cur]\<rparr>)
   \<and> (cur \<noteq> [] \<and> cur \<notin> set (map node_id nodes) \<longrightarrow>
      FlowExecutor_executeFlow js nodes edges (Some cur) =
        Inr \<lparr>success = False, error = Some (''Node '' @ cur @ '' not found''),
             finalOutput = JUndefined, executionPath = [cur]\<rparr>)"
proof -
  have nf: "find (\<lambda>n. node_id n = cur) nodes = None" if "cur \<notin> set (map node_id nodes)"
    using that by (auto simp: find_None_iff)
  have step: "flowResult (walk js nodes edges (Some cur) out' vis p) =
        Inr \<lparr>success = False, error = Some (''Node '' @ cur @ '' not found''),
             finalOutput = JUndefined, executionPath = p @ [cur]\<rparr>"
    if "cur \<noteq> []" "cur \<notin> vis" "cur \<notin> set (map node_id nodes)" for out' vis p
    using that nf by (simp add: walk.simps flowResult_def)
  show ?thesis
    using step [of visited out path] step [of "{}" JNull "[]"]
    by (simp add: FlowExecutor_executeFlow_def startOf_def)
qed

theorem dangling_id_ends_path_witness:
  "''x'' \<noteq> [] \<and> ''x'' \<notin> {''a''} \<and> ''x'' \<notin> set (map node_id [mkNode ''a'' ''return 1''])
   \<and> FlowExecutor_executeFlow sample_engine [mkNode ''a'' ''return 1''] dangling_edges None =
       flowResult (walk sample_engine [mkNode ''a'' ''return 1''] dangling_edges (Some ''x'') (JNum (Fin 1)) {''a''} [''a''])
   \<and> flowResult (walk sample_engine [mkNode ''a'' ''return 1''] dangling_edges (Some ''x'') (JNum (Fin 1)) {''a''} [''a'']) =
       Inr \<lparr>success = False, error = Some ''Node x not found'', finalOutput = JUndefined,
            executionPath = [''a'', ''x'']\<rparr>
   \<and> FlowExecutor_executeFlow sample_engine [mkNode ''a'' ''return 1''] dangling_edges (Some ''x'') =
       Inr \<lparr>success = False, error = Some ''Node x not found'', finalOutput = JUndefined,
            executionPath = [''x'']\<rparr>"
proof -
  have a: "''x'' \<noteq> [] \<and> ''x'' \<notin> {''a''} \<and> ''x'' \<notin> set (map node_id [mkNode ''a'' ''return 1''])"
    by (simp add: mkNode_def)
  have b: "FlowExecutor_executeFlow sample_engine [mkNode ''a'' ''return 1''] dangling_edges None =
       flowResult (walk sample_engine [mkNode ''a'' ''return 1''] dangling_edges (Some ''x'') (JNum (Fin 1)) {''a''} [''a''])"
    by (simp add: flow_defs sample_defs walk.simps [of _ _ _ "Some ''a''"])
  from dangling_id_ends_path [of "''x''" "{''a''}" "[mkNode ''a'' ''return 1'']" sample_engine dangling_edges "JNum (Fin 1)" "[''a'']"] a b
  show ?thesis by simp
qed

section \<open>Properties of the execution queue\<close>

lemma elem_at_nth: "i < length xs \<Longrightarrow> elem_at xs i = Some (xs ! i)"
  by (induction xs i rule: elem_at.induct) auto

lemma find_id: "find (\<lambda>n. node_id n = nid) nodes = Some node \<Longrightarrow> node_id node = nid"
  by (auto simp: find_Some_iff)

lemma find_member: "nid \<in> set (map node_id nodes) \<Longrightarrow> \<exists>node. find (\<lambda>n. node_id n = nid) nodes = Some node"
  by (cases "find (\<lambda>n. node_id n = nid) nodes") (auto simp: find_None_iff)

lemma bit_length_bound: "0 < n \<Longrightarrow> 2 ^ (bit_length n - 1) \<le> n"
proof (induction n rule: bit_length.induct)
  case (1 n)
  show ?case
  proof (cases "n div 2 \<le> 0")
    case True
    with "1.prems" have "n = 1" by linarith
    then show ?thesis by (simp add: bit_length.simps)
  next
    case False
    then have pos: "0 < n div 2" by simp
    from "1.prems" have nz: "\<not> n \<le> 0" by simp
    from "1.IH" [OF nz pos] have ih: "2 ^ (bit_length (n div 2) - 1) \<le> n div 2" .
    have bl: "0 < bit_length (n div 2)" using pos by (subst bit_length.simps) simp
    have "bit_length n = Suc (bit_length (n div 2))" using nz by (subst bit_length.simps) simp
    then have "(2::int) ^ (bit_length n - 1) = 2 * 2 ^ (bit_length (n div 2) - 1)"
      using bl by (cases "bit_length (n div 2)") simp_all
    also have "\<dots> \<le> 2 * (n div 2)" using ih by simp
    also have "\<dots> \<le> n" by simp
    finally show ?thesis .
  qed
qed

lemma roundNat_positive:
  assumes "0 < n"
  shows "positive (roundNat n)"
proof (cases "n < 2 ^ 53")
  case True
  with assms show ?thesis by (simp add: roundNat_def)
next
  case False
  define e where "e = bit_length n - 53"
  define q where "q = n div 2 ^ e"
  have "(2::int) ^ e \<le> 2 ^ (bit_length n - 1)"
    by (rule power_increasing) (simp_all add: e_def)
  also have "\<dots> \<le> n" using assms by (rule bit_length_bound)
  finally have le: "2 ^ e \<le> n" .
  have "1 \<le> q" unfolding q_def using le
    by (metis div_by_1 div_self power_not_zero zdiv_mono1 zero_less_numeral zero_less_power zero_neq_numeral)
  then have qpos: "0 < q" by simp
  have p: "(0::int) < 2 ^ e" by simp
  have m1: "0 < q * 2 ^ e" using qpos p by (rule mult_pos_pos)
  have m2: "0 < (q + 1) * 2 ^ e" using qpos p by (intro mult_pos_pos) simp_all
  show ?thesis
    using False m1 m2
    by (simp add: roundNat_def Let_def e_def [symmetric] q_def [symmetric])
qed

lemma positive_not_negative: "positive v \<Longrightarrow> \<not> negative v"
  by (cases v) auto

lemma positive_negate: "positive (negate v) \<longleftrightarrow> negative v"
  by (cases v) auto

lemma negative_negate: "negative (negate v) \<longleftrightarrow> positive v"
  by (cases v) auto

lemma positive_toDouble: "positive (toDouble d) \<longleftrightarrow> 0 < d"
proof (cases "0 < d")
  case True
  then show ?thesis using roundNat_positive [of d] by (simp add: toDouble_def)
next
  case False
  show ?thesis
  proof (cases "d = 0")
    case True
    then show ?thesis by (simp add: toDouble_def roundNat_def)
  next
    case nz: False
    with False have "0 < - d" by simp
    from roundNat_positive [OF this] False nz show ?thesis
      by (simp add: toDouble_def positive_negate positive_not_negative)
  qed
qed

lemma negative_toDouble: "negative (toDouble d) \<longleftrightarrow> d < 0"
proof (cases "d < 0")
  case True
  then have "0 < - d" by simp
  from roundNat_positive [OF this] True show ?thesis
    by (simp add: toDouble_def negative_negate)
next
  case False
  show ?thesis
  proof (cases "d = 0")
    case True
    then show ?thesis by (simp add: toDouble_def roundNat_def)
  next
    case nz: False
    with False have "0 < d" by simp
    from roundNat_positive [OF this] False show ?thesis
      by (simp add: toDouble_def positive_not_negative)
  qed
qed

lemma positive_js_sub:
  "a \<noteq> NotANumber \<Longrightarrow> b \<noteq> NotANumber \<Longrightarrow> positive (js_sub a b) \<longleftrightarrow> \<not> time_le a b"
  by (cases a; cases b) (auto simp: positive_toDouble)

lemma negative_js_sub:
  "a \<noteq> NotANumber \<Longrightarrow> b \<noteq> NotANumber \<Longrightarrow> negative (js_sub a b) \<longleftrightarrow> \<not> time_le b a"
  by (cases a; cases b) (auto simp: negative_toDouble)

lemma not_positive_same_time: "\<not> positive (js_sub v v)"
  by (cases v) (auto simp: positive_toDouble)

lemma time_le_trans:
  "time_le a b \<Longrightarrow> time_le b c \<Longrightarrow> time_le a c"
  by (cases a; cases b; cases c) auto

lemma time_le_total:
  "a \<noteq> NotANumber \<Longrightarrow> b \<noteq> NotANumber \<Longrightarrow> time_le a b \<or> time_le b a"
  by (cases a; cases b) auto

text \<open>When every id parses, the comparator of \<open>createExecutionQueue\<close> is consistent.\<close>

lemma consistent_byCreationTime:
  assumes "\<forall>y \<in> set xs. creationTime y \<noteq> NotANumber"
  shows "consistent byCreationTime xs"
proof -
  have pos: "positive (byCreationTime a b) \<longleftrightarrow> \<not> time_le (creationTime a) (creationTime b)"
    and neg: "negative (byCreationTime a b) \<longleftrightarrow> \<not> time_le (creationTime b) (creationTime a)"
    if "a \<in> set xs" "b \<in> set xs" for a b
    using that assms by (simp_all add: byCreationTime_def positive_js_sub negative_js_sub)
  have tot: "time_le (creationTime a) (creationTime b) \<or> time_le (creationTime b) (creationTime a)"
    if "a \<in> set xs" "b \<in> set xs" for a b
    using that assms by (simp add: time_le_total)
  show ?thesis
    unfolding consistent_def list_all_iff same_def
  proof (intro ballI conjI)
    fix a assume a: "a \<in> set xs"
    from tot [OF a a] show "\<not> positive (byCreationTime a a)" by (simp add: pos [OF a a])
    from tot [OF a a] show "\<not> negative (byCreationTime a a)" by (simp add: neg [OF a a])
    fix b assume b: "b \<in> set xs"
    show "if \<not> positive (byCreationTime a b) \<and> \<not> negative (byCreationTime a b)
          then \<not> positive (byCreationTime b a) \<and> \<not> negative (byCreationTime b a) else True"
      by (simp add: pos [OF a b] neg [OF a b] pos [OF b a] neg [OF b a])
    fix c assume c: "c \<in> set xs"
    show "if (\<not> positive (byCreationTime a b) \<and> \<not> negative (byCreationTime a b))
             \<and> \<not> positive (byCreationTime b c) \<and> \<not> negative (byCreationTime b c)
          then \<not> positive (byCreationTime a c) \<and> \<not> negative (byCreationTime a c) else True"
      using time_le_trans [of "creationTime a" "creationTime b" "creationTime c"]
        time_le_trans [of "creationTime c" "creationTime b" "creationTime a"]
      by (simp add: pos [OF a b] neg [OF a b] pos [OF b c] neg [OF b c] pos [OF a c] neg [OF a c])
    show "if negative (byCreationTime a b) \<and> negative (byCreationTime b c)
          then negative (byCreationTime a c) else True"
      using time_le_trans [of "creationTime c" "creationTime a" "creationTime b"] tot [OF a b]
      by (auto simp: neg [OF a b] neg [OF b c] neg [OF a c])
    show "if positive (byCreationTime a b) \<and> positive (byCreationTime b c)
          then positive (byCreationTime a c) else True"
      using time_le_trans [of "creationTime a" "creationTime c" "creationTime b"] tot [OF b c]
      by (auto simp: pos [OF a b] pos [OF b c] pos [OF a c])
  qed
qed

lemma mset_insertBy: "mset (insertBy cmp x ys) = add_mset x (mset ys)"
  by (induction ys) auto

lemma mset_stableSort: "mset (stableSort cmp xs) = mset xs"
  by (induction xs) (auto simp: mset_insertBy)

lemma mset_sortBy: "mset (sortBy w cmp xs) = mset xs"
  by (simp add: sortBy_def Let_def mset_stableSort)

lemma set_insertBy: "set (insertBy cmp x ys) = insert x (set ys)"
  by (induction ys) auto

lemma set_stableSort: "set (stableSort cmp xs) = set xs"
  by (induction xs) (auto simp: set_insertBy)

lemma sorted_insertBy:
  assumes "creationTime x \<noteq> NotANumber" "\<forall>y \<in> set ys. creationTime y \<noteq> NotANumber"
    and "sorted_wrt (\<lambda>a b. time_le (creationTime a) (creationTime b)) ys"
  shows "sorted_wrt (\<lambda>a b. time_le (creationTime a) (creationTime b)) (insertBy byCreationTime x ys)"
  using assms
proof (induction ys)
  case Nil
  then show ?case by simp
next
  case (Cons y ys)
  show ?case
  proof (cases "positive (byCreationTime x y)")
    case True
    then have "\<not> time_le (creationTime x) (creationTime y)"
      using Cons.prems by (simp add: byCreationTime_def positive_js_sub)
    then have yx: "time_le (creationTime y) (creationTime x)"
      using time_le_total [of "creationTime x" "creationTime y"] Cons.prems by auto
    from Cons have "sorted_wrt (\<lambda>a b. time_le (creationTime a) (creationTime b)) (insertBy byCreationTime x ys)"
      by simp
    with True yx Cons.prems show ?thesis by (auto simp: set_insertBy)
  next
    case False
    then have xy: "time_le (creationTime x) (creationTime y)"
      using Cons.prems by (simp add: byCreationTime_def positive_js_sub)
    with False Cons.prems show ?thesis by (auto intro: time_le_trans)
  qed
qed

lemma sorted_stableSort:
  "\<forall>y \<in> set xs. creationTime y \<noteq> NotANumber \<Longrightarrow>
     sorted_wrt (\<lambda>a b. time_le (creationTime a) (creationTime b)) (stableSort byCreationTime xs)"
  by (induction xs) (auto simp: sorted_insertBy set_stableSort)

text \<open>Insertion never moves a node past one that reads as the same Number.\<close>

lemma filter_insertBy:
  "filter (\<lambda>n. creationTime n = v) (insertBy byCreationTime x ys) =
     filter (\<lambda>n. creationTime n = v) (x # ys)"
proof (induction ys)
  case Nil
  then show ?case by simp
next
  case (Cons y ys)
  show ?case
  proof (cases "positive (byCreationTime x y)")
    case True
    then have "creationTime x \<noteq> creationTime y"
      using not_positive_same_time [of "creationTime y"] by (auto simp: byCreationTime_def)
    with True Cons show ?thesis by auto
  next
    case False
    then show ?thesis by simp
  qed
qed

lemma filter_stableSort:
  "filter (\<lambda>n. creationTime n = v) (stableSort byCreationTime xs) = filter (\<lambda>n. creationTime n = v) xs"
  by (induction xs) (simp_all add: filter_insertBy)

lemma sortBy_parsed:
  "\<forall>y \<in> set xs. creationTime y \<noteq> NotANumber \<Longrightarrow> sortBy w byCreationTime xs = stableSort byCreationTime xs"
  by (simp add: sortBy_def consistent_byCreationTime)

lemma createExecutionQueue_no_entry:
  "''input-node'' \<notin> set (map node_id nodes) \<Longrightarrow> createExecutionQueue w nodes = []"
proof -
  assume "''input-node'' \<notin> set (map node_id nodes)"
  then have "\<And>x. x \<in> set nodes \<Longrightarrow> node_id x \<noteq> ''input-node''"
    by (metis imageI set_map)
  then have "find (\<lambda>node. node_id node = ''input-node'') nodes = None"
    by (simp add: find_None_iff)
  then show ?thesis by (simp add: createExecutionQueue_def)
qed

lemma createExecutionQueue_entry:
  assumes "''input-node'' \<in> set (map node_id nodes)"
  shows "\<exists>rest. createExecutionQueue w nodes = ''input-node'' # rest
      \<and> mset rest = mset (filter (\<lambda>i. i \<noteq> ''input-node'') (map node_id nodes))"
proof -
  from find_member [OF assms] obtain n where f: "find (\<lambda>node. node_id node = ''input-node'') nodes = Some n"
    by blast
  have "mset (map node_id (sortBy w byCreationTime (filter (\<lambda>node. node_id node \<noteq> ''input-node'') nodes)))
      = mset (filter (\<lambda>i. i \<noteq> ''input-node'') (map node_id nodes))"
    by (simp add: mset_sortBy filter_map comp_def)
  with f find_id [OF f] show ?thesis
    by (simp add: createExecutionQueue_def)
qed

lemma queue_rest_ids:
  assumes "createExecutionQueue w nodes = entry # rest"
  shows "entry = ''input-node'' \<and> ''input-node'' \<in> set (map node_id nodes)
     \<and> set rest \<subseteq> set (map node_id nodes) - {''input-node''}"
proof -
  have mem: "''input-node'' \<in> set (map node_id nodes)"
    using assms createExecutionQueue_no_entry [of nodes w] by auto
  from createExecutionQueue_entry [OF mem, of w] assms
  have e: "entry = ''input-node''" and m: "mset rest = mset (filter (\<lambda>i. i \<noteq> ''input-node'') (map node_id nodes))"
    by auto
  from m have "set rest = set (filter (\<lambda>i. i \<noteq> ''input-node'') (map node_id nodes))"
    by (rule mset_eq_setD)
  with e mem show ?thesis by auto
qed

lemma isDigit_decimal: "isDigit 10 c \<longleftrightarrow> 48 \<le> (of_char c :: nat) \<and> (of_char c :: nat) \<le> 57"
  by (auto simp: isDigit_def digitOf_def Let_def)

lemma digit_not_special:
  assumes "isDigit 10 c"
  shows "\<not> isWhiteSpace c" "c \<noteq> CHR ''-''" "c \<noteq> CHR ''+''" "c \<noteq> CHR ''x''" "c \<noteq> CHR ''X''"
  using assms by (auto simp: isDigit_decimal isWhiteSpace_def)

lemma parseInt_digits:
  assumes ne: "t \<noteq> []" and dig: "\<forall>c \<in> set t. isDigit 10 c"
  shows "parseInt t = roundNat (digitsValue 10 t)"
proof -
  from ne obtain a s where t: "t = a # s" by (cases t) auto
  with dig have a: "isDigit 10 a" by simp
  have dw: "dropWhile isWhiteSpace t = t" using t digit_not_special(1) [OF a] by simp
  have tw: "takeWhile (isDigit 10) t = t" using dig by (simp add: takeWhile_eq_all_conv)
  have pd: "parseDigits 10 False t = roundNat (digitsValue 10 t)"
    using ne by (simp add: parseDigits_def tw)
  have pp: "parsePrefix False t = parseDigits 10 False t"
  proof (cases s)
    case Nil
    with t show ?thesis by simp
  next
    case (Cons b s')
    with t dig have "isDigit 10 b" by simp
    from digit_not_special(4,5) [OF this] t Cons show ?thesis by simp
  qed
  have ps: "parseSign t = parsePrefix False t"
    using digit_not_special(2,3) [OF a] by (simp add: t)
  show ?thesis
    by (simp add: parseInt_def dw ps pp pd)
qed

lemma roundNat_exact: "n < 2 ^ 53 \<Longrightarrow> roundNat n = Whole n"
  by (simp add: roundNat_def)

lemma creationTime_no_token:
  "elem_at (split (CHR ''-'') (node_id n)) 1 = None \<or> elem_at (split (CHR ''-'') (node_id n)) 1 = Some []
     \<Longrightarrow> creationTime n = Whole 0"
  by (auto simp: creationTime_def parseInt_def parseDigits_def isDigit_def digitOf_def digitsValue_def
        isWhiteSpace_def roundNat_def)

lemma creationTime_digits:
  assumes "elem_at (split (CHR ''-'') (node_id n)) 1 = Some t" "t \<noteq> []" "\<forall>c \<in> set t. isDigit 10 c"
  shows "creationTime n = roundNat (digitsValue 10 t)"
  using assms by (simp add: creationTime_def parseInt_digits)

lemmas time_defs = creationTime_def parseInt_def parseDigits_def digitsValue_def isDigit_def digitOf_def
  isWhiteSpace_def roundNat_def

lemma sample_times:
  "creationTime (mkNode ''node-1000'' []) = Whole 1000"
  "creationTime (mkNode ''node-2000'' []) = Whole 2000"
  "creationTime (mkNode ''node-0'' []) = Whole 0"
  "creationTime (mkNode ''node-1'' []) = Whole 1"
  "creationTime (mkNode ''node-5'' []) = Whole 5"
  "creationTime (mkNode ''node-abc'' []) = NotANumber"
  "creationTime (mkNode ''node-9007199254740992'' []) = Whole 9007199254740992"
  "creationTime (mkNode ''node-9007199254740993'' []) = Whole 9007199254740992"
  by (simp_all add: entry_node_def mkNode_def time_defs bit_length.simps Let_def)

lemmas queue_defs = createExecutionQueue_def sortBy_def consistent_def same_def byCreationTime_def
  toDouble_def roundNat_def

lemma scenario_queue:
  "createExecutionQueue w scenario_nodes = [''input-node'', ''node-1000'', ''node-2000'']"
proof -
  have "sortBy w byCreationTime [mkNode ''node-2000'' [], mkNode ''node-1000'' []] =
      [mkNode ''node-1000'' [], mkNode ''node-2000'' []]"
    by (simp add: sortBy_parsed sample_times byCreationTime_def toDouble_def roundNat_def)
  then show ?thesis
    by (simp add: createExecutionQueue_def scenario_nodes_def entry_node_def mkNode_def)
qed

lemma entry_queue: "createExecutionQueue w [entry_node] = [''input-node'']"
  by (simp add: entry_node_def createExecutionQueue_def sortBy_def consistent_def)

text \<open>
  On a list that the comparator orders inconsistently the queue is the engine's: sorting
  by insertion leaves \<open>node-0\<close> behind \<open>node-abc\<close>, and V8 puts it first.
\<close>

lemma mixed_not_consistent:
  "\<not> consistent byCreationTime (filter (\<lambda>node. node_id node \<noteq> ''input-node'') mixed_nodes)"
  by (simp add: mixed_nodes_def entry_node_def consistent_def same_def byCreationTime_def sample_times
        toDouble_def roundNat_def) (simp add: mkNode_def)

lemma mixed_connected:
  "filter (\<lambda>node. node_id node \<noteq> ''input-node'') mixed_nodes =
     [mkNode ''node-5'' [], mkNode ''node-1'' [], mkNode ''node-abc'' [], mkNode ''node-0'' []]"
  by (simp add: mixed_nodes_def entry_node_def mkNode_def)

lemma mixed_by_insertion:
  "createExecutionQueue sample_world mixed_nodes =
     [''input-node'', ''node-1'', ''node-5'', ''node-abc'', ''node-0'']"
proof -
  have "sortBy sample_world byCreationTime
          [mkNode ''node-5'' [], mkNode ''node-1'' [], mkNode ''node-abc'' [], mkNode ''node-0'' []] =
        [mkNode ''node-1'' [], mkNode ''node-5'' [], mkNode ''node-abc'' [], mkNode ''node-0'' []]"
    using mixed_not_consistent
    by (simp add: mixed_connected sortBy_def sample_world_def byCreationTime_def sample_times
          toDouble_def roundNat_def)
  then show ?thesis
    by (simp add: createExecutionQueue_def mixed_connected)
       (simp add: mixed_nodes_def entry_node_def mkNode_def)
qed

lemma mixed_by_v8:
  "createExecutionQueue v8_world mixed_nodes =
     [''input-node'', ''node-0'', ''node-1'', ''node-5'', ''node-abc'']"
proof -
  have "sortBy v8_world byCreationTime
          [mkNode ''node-5'' [], mkNode ''node-1'' [], mkNode ''node-abc'' [], mkNode ''node-0'' []] =
        [mkNode ''node-0'' [], mkNode ''node-1'' [], mkNode ''node-5'' [], mkNode ''node-abc'' []]"
    using mixed_not_consistent
    by (simp add: mixed_connected sortBy_def v8_world_def sample_world_def byCreationTime_def sample_times
          toDouble_def roundNat_def binaryInsert_def binarySearch.simps Let_def)
  then show ?thesis
    by (simp add: createExecutionQueue_def mixed_connected)
       (simp add: mixed_nodes_def entry_node_def mkNode_def)
qed


text \<open>
  C1, amended: whatever the engine, \<open>createExecutionQueue\<close> returns the empty list when no
  node has the id \<open>input-node\<close>. Otherwise it returns \<open>input-node\<close> followed by the ids of the
  \<open>k\<close> nodes of another id, each once (\<open>k + 1\<close> ids). When the Number that \<open>parseInt\<close> reads
  from the second \<open>-\<close>-separated part of the id is not \<open>NaN\<close> for any of these nodes, their
  ids are in ascending order of that Number, and the nodes that read as the same Number
  are in the order they have in the node list. An absent or empty part reads as \<open>0\<close>; a
  part of decimal digits reads as the double nearest to its value, which is the value
  itself when the value is below \<open>2^53\<close>.
\<close>

theorem queue_is_entry_then_sorted:
  "(''input-node'' \<notin> set (map node_id nodes) \<longrightarrow> createExecutionQueue w nodes = [])
   \<and> (''input-node'' \<in> set (map node_id nodes) \<longrightarrow>
        (\<exists>others. createExecutionQueue w nodes = ''input-node'' # map node_id others
           \<and> mset others = mset (filter (\<lambda>n. node_id n \<noteq> ''input-node'') nodes)
           \<and> length (createExecutionQueue w nodes) = length (filter (\<lambda>n. node_id n \<noteq> ''input-node'') nodes) + 1
           \<and> ((\<forall>n \<in> set nodes. node_id n \<noteq> ''input-node'' \<longrightarrow> creationTime n \<noteq> NotANumber) \<longrightarrow>
                 sorted_wrt (\<lambda>a b. time_le (creationTime a) (creationTime b)) others
                 \<and> (\<forall>v. filter (\<lambda>n. creationTime n = v) others =
                          filter (\<lambda>n. creationTime n = v) (filter (\<lambda>n. node_id n \<noteq> ''input-node'') nodes)))))
   \<and> (elem_at (split (CHR ''-'') (node_id n)) 1 = None \<or> elem_at (split (CHR ''-'') (node_id n)) 1 = Some []
        \<longrightarrow> creationTime n = Whole 0)
   \<and> (elem_at (split (CHR ''-'') (node_id n)) 1 = Some t \<and> t \<noteq> [] \<and> (\<forall>c \<in> set t. isDigit 10 c) \<longrightarrow>
        creationTime n = roundNat (digitsValue 10 t)
        \<and> (digitsValue 10 t < 2 ^ 53 \<longrightarrow> creationTime n = Whole (digitsValue 10 t)))"
proof (intro conjI impI)
  assume "''input-node'' \<notin> set (map node_id nodes)"
  then show "createExecutionQueue w nodes = []" by (rule createExecutionQueue_no_entry)
next
  assume mem: "''input-node'' \<in> set (map node_id nodes)"
  from find_member [OF mem] obtain e where f: "find (\<lambda>node. node_id node = ''input-node'') nodes = Some e"
    by blast
  let ?connected = "filter (\<lambda>n. node_id n \<noteq> ''input-node'') nodes"
  let ?others = "sortBy w byCreationTime ?connected"
  have q: "createExecutionQueue w nodes = ''input-node'' # map node_id ?others"
    using f find_id [OF f] by (simp add: createExecutionQueue_def)
  have m: "mset ?others = mset ?connected"
    by (rule mset_sortBy)
  have l: "length (createExecutionQueue w nodes) = length ?connected + 1"
    using mset_eq_length [OF m] by (simp add: q)
  have s: "(\<forall>n \<in> set nodes. node_id n \<noteq> ''input-node'' \<longrightarrow> creationTime n \<noteq> NotANumber) \<longrightarrow>
      sorted_wrt (\<lambda>a b. time_le (creationTime a) (creationTime b)) ?others
      \<and> (\<forall>v. filter (\<lambda>n. creationTime n = v) ?others = filter (\<lambda>n. creationTime n = v) ?connected)"
  proof
    assume "\<forall>n \<in> set nodes. node_id n \<noteq> ''input-node'' \<longrightarrow> creationTime n \<noteq> NotANumber"
    then have parsed: "\<forall>y \<in> set ?connected. creationTime y \<noteq> NotANumber" by simp
    then have "?others = stableSort byCreationTime ?connected" by (rule sortBy_parsed)
    with parsed show "sorted_wrt (\<lambda>a b. time_le (creationTime a) (creationTime b)) ?others
      \<and> (\<forall>v. filter (\<lambda>n. creationTime n = v) ?others = filter (\<lambda>n. creationTime n = v) ?connected)"
      by (simp add: sorted_stableSort filter_stableSort)
  qed
  from q m l s
  show "\<exists>others. createExecutionQueue w nodes = ''input-node'' # map node_id others
           \<and> mset others = mset (filter (\<lambda>n. node_id n \<noteq> ''input-node'') nodes)
           \<and> length (createExecutionQueue w nodes) = length (filter (\<lambda>n. node_id n \<noteq> ''input-node'') nodes) + 1
           \<and> ((\<forall>n \<in> set nodes. node_id n \<noteq> ''input-node'' \<longrightarrow> creationTime n \<noteq> NotANumber) \<longrightarrow>
                 sorted_wrt (\<lambda>a b. time_le (creationTime a) (creationTime b)) others
                 \<and> (\<forall>v. filter (\<lambda>n. creationTime n = v) others =
                          filter (\<lambda>n. creationTime n = v) (filter (\<lambda>n. node_id n \<noteq> ''input-node'') nodes)))"
    by blast
next
  assume "elem_at (split (CHR ''-'') (node_id n)) 1 = None \<or> elem_at (split (CHR ''-'') (node_id n)) 1 = Some []"
  then show "creationTime n = Whole 0" by (rule creationTime_no_token)
next
  assume a: "elem_at (split (CHR ''-'') (node_id n)) 1 = Some t \<and> t \<noteq> [] \<and> (\<forall>c \<in> set t. isDigit 10 c)"
  then show "creationTime n = roundNat (digitsValue 10 t)"
    by (simp add: creationTime_digits)
next
  assume a: "elem_at (split (CHR ''-'') (node_id n)) 1 = Some t \<and> t \<noteq> [] \<and> (\<forall>c \<in> set t. isDigit 10 c)"
    and b: "digitsValue 10 t < 2 ^ 53"
  from a have "creationTime n = roundNat (digitsValue 10 t)" by (simp add: creationTime_digits)
  with b show "creationTime n = Whole (digitsValue 10 t)" by (simp add: roundNat_exact)
qed

text \<open>
  C1, as the claim states it, fails. Tokens are compared as doubles: \<open>9007199254740993\<close> and
  \<open>9007199254740992\<close> are the same double, so the two ids keep the order of the node list and
  are not in ascending order of their tokens. And a token that is not a number reads as
  \<open>NaN\<close>, not as \<open>0\<close>: the comparator then answers \<open>NaN\<close>, and \<open>node-abc\<close> stays behind
  \<open>node-5\<close>.
\<close>

theorem queue_not_sorted_by_claimed_token:
  "createExecutionQueue sample_world big_nodes =
     [''input-node'', ''node-9007199254740993'', ''node-9007199254740992'']
   \<and> \<not> sorted (map claimedToken (tl (createExecutionQueue sample_world big_nodes)))
   \<and> createExecutionQueue sample_world odd_nodes = [''input-node'', ''node-5'', ''node-abc'']
   \<and> \<not> sorted (map claimedToken (tl (createExecutionQueue sample_world odd_nodes)))"
proof -
  have b: "createExecutionQueue sample_world big_nodes =
      [''input-node'', ''node-9007199254740993'', ''node-9007199254740992'']"
    by (simp add: big_nodes_def entry_node_def queue_defs sample_times) (simp add: mkNode_def)
  have o: "createExecutionQueue sample_world odd_nodes = [''input-node'', ''node-5'', ''node-abc'']"
    by (simp add: odd_nodes_def entry_node_def queue_defs sample_times) (simp add: mkNode_def)
  have t: "claimedToken ''node-9007199254740993'' = 9007199254740993"
    "claimedToken ''node-9007199254740992'' = 9007199254740992"
    "claimedToken ''node-5'' = 5" "claimedToken ''node-abc'' = 0"
    by (simp_all add: claimedToken_def isDigit_def digitOf_def digitsValue_def)
  show ?thesis by (simp add: b o t)
qed

theorem queue_is_entry_then_sorted_witness:
  "''input-node'' \<notin> set (map node_id [mkNode ''node-5'' []])
   \<and> createExecutionQueue sample_world [mkNode ''node-5'' []] = []
   \<and> ''input-node'' \<in> set (map node_id big_nodes)
   \<and> creationTime (mkNode ''node-9007199254740993'' []) = Whole 9007199254740992
   \<and> creationTime (mkNode ''node-9007199254740992'' []) = Whole 9007199254740992
   \<and> (\<exists>others. createExecutionQueue sample_world big_nodes = ''input-node'' # map node_id others
         \<and> length (createExecutionQueue sample_world big_nodes) = 3
         \<and> sorted_wrt (\<lambda>a b. time_le (creationTime a) (creationTime b)) others
         \<and> filter (\<lambda>n. creationTime n = Whole 9007199254740992) others =
             [mkNode ''node-9007199254740993'' [], mkNode ''node-9007199254740992'' []])
   \<and> creationTime (mkNode ''node-2000'' []) = Whole 2000
   \<and> creationTime (mkNode ''orphan'' []) = Whole 0"
proof -
  have none: "''input-node'' \<notin> set (map node_id [mkNode ''node-5'' []])"
    by (simp add: mkNode_def)
  from queue_is_entry_then_sorted [where nodes = "[mkNode ''node-5'' []]" and w = sample_world, THEN conjunct1] none
  have empty: "createExecutionQueue sample_world [mkNode ''node-5'' []] = []" by blast
  have mem: "''input-node'' \<in> set (map node_id big_nodes)"
    by (simp add: big_nodes_def entry_node_def mkNode_def)
  have t2: "creationTime (mkNode ''node-2000'' []) = Whole 2000"
    using queue_is_entry_then_sorted [where n = "mkNode ''node-2000'' []" and t = "''2000''", THEN conjunct2, THEN conjunct2, THEN conjunct2]
    by (simp add: mkNode_def isDigit_def digitOf_def digitsValue_def roundNat_def)
  have t0: "creationTime (mkNode ''orphan'' []) = Whole 0"
    using queue_is_entry_then_sorted [where n = "mkNode ''orphan'' []", THEN conjunct2, THEN conjunct2, THEN conjunct1]
    by (simp add: mkNode_def)
  have b3: "creationTime (mkNode ''node-9007199254740993'' []) = Whole 9007199254740992"
    using queue_is_entry_then_sorted [where n = "mkNode ''node-9007199254740993'' []" and t = "''9007199254740993''",
      THEN conjunct2, THEN conjunct2, THEN conjunct2]
    by (simp add: mkNode_def isDigit_def digitOf_def digitsValue_def roundNat_def bit_length.simps Let_def)
  have b2: "creationTime (mkNode ''node-9007199254740992'' []) = Whole 9007199254740992"
    using queue_is_entry_then_sorted [where n = "mkNode ''node-9007199254740992'' []" and t = "''9007199254740992''",
      THEN conjunct2, THEN conjunct2, THEN conjunct2]
    by (simp add: mkNode_def isDigit_def digitOf_def digitsValue_def roundNat_def bit_length.simps Let_def)
  have parse: "\<forall>n \<in> set big_nodes. node_id n \<noteq> ''input-node'' \<longrightarrow> creationTime n \<noteq> NotANumber"
    using b2 b3 by (simp add: big_nodes_def entry_node_def)
  from queue_is_entry_then_sorted [where nodes = big_nodes and w = sample_world, THEN conjunct2, THEN conjunct1] mem parse
  obtain others where "createExecutionQueue sample_world big_nodes = ''input-node'' # map node_id others"
    and "length (createExecutionQueue sample_world big_nodes) = length (filter (\<lambda>n. node_id n \<noteq> ''input-node'') big_nodes) + 1"
    and "sorted_wrt (\<lambda>a b. time_le (creationTime a) (creationTime b)) others"
    and "\<forall>v. filter (\<lambda>n. creationTime n = v) others =
              filter (\<lambda>n. creationTime n = v) (filter (\<lambda>n. node_id n \<noteq> ''input-node'') big_nodes)"
    by blast
  then have "\<exists>others. createExecutionQueue sample_world big_nodes = ''input-node'' # map node_id others
         \<and> length (createExecutionQueue sample_world big_nodes) = 3
         \<and> sorted_wrt (\<lambda>a b. time_le (creationTime a) (creationTime b)) others
         \<and> filter (\<lambda>n. creationTime n = Whole 9007199254740992) others =
             [mkNode ''node-9007199254740993'' [], mkNode ''node-9007199254740992'' []]"
    using b2 b3 by (auto simp: big_nodes_def entry_node_def mkNode_def)
  with none empty mem b3 b2 t2 t0 show ?thesis by blast
qed

section \<open>Properties of QueueFlowExecutor\<close>

lemma startedIds_append [simp]: "startedIds (xs @ ys) = startedIds xs @ startedIds ys"
  by (induction xs rule: startedIds.induct) auto

lemma completions_append [simp]: "completions (xs @ ys) = completions xs @ completions ys"
  by (induction xs rule: completions.induct) auto

lemma marks_append [simp]: "marks (xs @ ys) = marks xs @ marks ys"
  by (simp add: marks_def)

lemma marks_Cons [simp]: "marks (x # xs) = (nodeId x, log_type x) # marks xs"
  by (simp add: marks_def)

lemma marks_Nil [simp]: "marks [] = []"
  by (simp add: marks_def)

lemma notify_simps [simp]:
  "notify None c st = (Inr (), st)"
  "notify (Some None) c st = (Inr (), st\<lparr>st_trace := st_trace st @ [c]\<rparr>)"
  "notify (Some (Some t)) c st = (Inl t, st\<lparr>st_trace := st_trace st @ [c]\<rparr>)"
  by (simp_all add: notify_def)

lemma addLog_quiet:
  assumes "quietLog cb"
  shows "addLog cb w nid nname ty msg d st =
     (Inr (), st\<lparr>st_ticks := Suc (st_ticks st),
                st_logs := st_logs st @ [\<lparr>nodeId = nid, nodeName = nname, timestamp = now w (st_ticks st),
                                           log_type = ty, message = msg, data = d\<rparr>],
                st_trace := st_trace st @ (if onLog cb = None then []
                   else [Logged \<lparr>nodeId = nid, nodeName = nname, timestamp = now w (st_ticks st),
                                           log_type = ty, message = msg, data = d\<rparr>])\<rparr>)"
  using assms by (cases "onLog cb") (auto simp: addLog_def Let_def quietLog_def)

lemma endpointFor_Some: "0 < i \<Longrightarrow> \<exists>ep. endpointFor i = Some ep"
  by (simp add: endpointFor_def elem_at_nth API_ENDPOINTS_def)

lemma executeNode_api_quiet:
  assumes "quietLog cb" "node_id node \<noteq> ''input-node''" "0 < i"
  shows "\<exists>r st'. executeNode w node i (addLog cb w) st = (Inr r, st')
      \<and> success r = dispatchOk w i
      \<and> (success r \<longrightarrow> output_value r = dispatchData w i)
      \<and> (\<not> success r \<longrightarrow> error r \<noteq> None)
      \<and> length (st_logs st') = length (st_logs st) + 3
      \<and> marks (st_logs st') = marks (st_logs st) @
            [(node_id node, Info), (node_id node, Info), (node_id node, if dispatchOk w i then Success else Error)]
      \<and> st_ticks st' = st_ticks st + 3
      \<and> st_completedNodes st' = st_completedNodes st
      \<and> st_finalOutput st' = st_finalOutput st
      \<and> startedIds (st_trace st') = startedIds (st_trace st)
      \<and> completions (st_trace st') = completions (st_trace st)"
proof -
  from endpointFor_Some [OF assms(3)] obtain ep where ep: "endpointFor i = Some ep" by blast
  show ?thesis
    using assms(1,2) ep
    by (cases "fetch w i")
       (auto simp: executeNode_def callEndpoint_def callFailed_def and_then_def try_catch_def
          throws_def returns_def addLog_quiet dispatchOk_def dispatchData_def)
qed


lemma executeNode_input_quiet:
  assumes "quietLog cb" "node_id node = ''input-node''"
  shows "\<exists>st'. executeNode w node i (addLog cb w) st =
        (Inr \<lparr>success = True, error = None,
              output_value = initializedPayload (now w (Suc (st_ticks st))),
              node_logs = [''Input node initialized'']\<rparr>, st')
      \<and> length (st_logs st') = length (st_logs st) + 1
      \<and> marks (st_logs st') = marks (st_logs st) @ [(node_id node, Info)]
      \<and> st_ticks st' = st_ticks st + 2
      \<and> st_completedNodes st' = st_completedNodes st
      \<and> st_finalOutput st' = st_finalOutput st
      \<and> startedIds (st_trace st') = startedIds (st_trace st)
      \<and> completions (st_trace st') = completions (st_trace st)"
  using assms
  by (auto simp: executeNode_def and_then_def returns_def readClock_def addLog_quiet)

lemma quiet_start:
  "quiet cb \<Longrightarrow> notify (map_option (\<lambda>f. f nid) (onNodeStart cb)) c st =
     (Inr (), st\<lparr>st_trace := st_trace st @ (if onNodeStart cb = None then [] else [c])\<rparr>)"
  by (cases "onNodeStart cb") (auto simp: quiet_def)

lemma quiet_complete:
  "quiet cb \<Longrightarrow> notify (map_option (\<lambda>f. f nid r) (onNodeComplete cb)) c st =
     (Inr (), st\<lparr>st_trace := st_trace st @ (if onNodeComplete cb = None then [] else [c])\<rparr>)"
  by (cases "onNodeComplete cb") (auto simp: quiet_def)

lemma quiet_quietLog: "quiet cb \<Longrightarrow> quietLog cb"
  by (simp add: quiet_def)

lemma settle_api_quiet:
  assumes q: "quiet cb" and ni: "node_id node \<noteq> ''input-node''" and pos: "0 < i"
  shows "\<exists>st'. settle cb w node nid i st = (Inr (), st')
      \<and> length (st_logs st') = length (st_logs st) + 4
      \<and> marks (st_logs st') = marks (st_logs st) @
            [(node_id node, Info), (node_id node, Info), (node_id node, if dispatchOk w i then Success else Error),
             (nid, if dispatchOk w i then Success else Error)]
      \<and> st_ticks st' = st_ticks st + 4
      \<and> st_completedNodes st' = st_completedNodes st @ (if dispatchOk w i then [nid] else [])
      \<and> st_finalOutput st' = (if dispatchOk w i then dispatchData w i else st_finalOutput st)
      \<and> startedIds (st_trace st') = startedIds (st_trace st)
      \<and> completions (st_trace st') = completions (st_trace st) @
            (if onNodeComplete cb = None then [] else [(nid, dispatchOk w i)])"
proof -
  from executeNode_api_quiet [OF quiet_quietLog [OF q] ni pos, of w st]
  obtain r st1 where ex: "executeNode w node i (addLog cb w) st = (Inr r, st1)"
    and r: "success r = dispatchOk w i" "success r \<longrightarrow> output_value r = dispatchData w i"
    and st1: "length (st_logs st1) = length (st_logs st) + 3"
      "marks (st_logs st1) = marks (st_logs st) @
            [(node_id node, Info), (node_id node, Info), (node_id node, if dispatchOk w i then Success else Error)]"
      "st_ticks st1 = st_ticks st + 3"
      "st_completedNodes st1 = st_completedNodes st"
      "st_finalOutput st1 = st_finalOutput st"
      "startedIds (st_trace st1) = startedIds (st_trace st)"
      "completions (st_trace st1) = completions (st_trace st)"
    by blast
  show ?thesis
    using r st1
    by (auto simp: settle_def and_then_def observe_def ex recordSuccess_def addLog_quiet [OF quiet_quietLog [OF q]]
          quiet_complete [OF q])
qed

lemma settle_input_quiet:
  assumes q: "quiet cb" and ni: "node_id node = ''input-node''"
  shows "\<exists>st'. settle cb w node nid i st = (Inr (), st')
      \<and> length (st_logs st') = length (st_logs st) + 2
      \<and> marks (st_logs st') = marks (st_logs st) @ [(node_id node, Info), (nid, Success)]
      \<and> st_ticks st' = st_ticks st + 3
      \<and> st_completedNodes st' = st_completedNodes st @ [nid]
      \<and> st_finalOutput st' = initializedPayload (now w (Suc (st_ticks st)))
      \<and> startedIds (st_trace st') = startedIds (st_trace st)
      \<and> completions (st_trace st') = completions (st_trace st) @
            (if onNodeComplete cb = None then [] else [(nid, True)])"
proof -
  from executeNode_input_quiet [OF quiet_quietLog [OF q] ni, of w i st]
  obtain st1 where ex: "executeNode w node i (addLog cb w) st =
        (Inr \<lparr>success = True, error = None,
              output_value = initializedPayload (now w (Suc (st_ticks st))),
              node_logs = [''Input node initialized'']\<rparr>, st1)"
    and st1: "length (st_logs st1) = length (st_logs st) + 1"
      "marks (st_logs st1) = marks (st_logs st) @ [(node_id node, Info)]"
      "st_ticks st1 = st_ticks st + 2"
      "st_completedNodes st1 = st_completedNodes st"
      "st_finalOutput st1 = st_finalOutput st"
      "startedIds (st_trace st1) = startedIds (st_trace st)"
      "completions (st_trace st1) = completions (st_trace st)"
    by blast
  show ?thesis
    using st1
    by (auto simp: settle_def and_then_def observe_def ex recordSuccess_def addLog_quiet [OF quiet_quietLog [OF q]]
          quiet_complete [OF q])
qed


lemma processEntry_api_quiet:
  assumes q: "quiet cb" and mem: "nid \<in> set (map node_id nodes)" and ni: "nid \<noteq> ''input-node''" and pos: "0 < i"
  shows "\<exists>st'. processEntry cb w nodes i nid st = (Inr (), st')
      \<and> length (st_logs st') = length (st_logs st) + 5
      \<and> marks (st_logs st') = marks (st_logs st) @ nodeMarks w i nid
      \<and> st_ticks st' = st_ticks st + 5
      \<and> st_completedNodes st' = st_completedNodes st @ (if succeeds w i nid then [nid] else [])
      \<and> st_finalOutput st' = (if succeeds w i nid then outputOf w i nid else st_finalOutput st)
      \<and> startedIds (st_trace st') = startedIds (st_trace st) @ (if onNodeStart cb = None then [] else [nid])
      \<and> completions (st_trace st') = completions (st_trace st) @
            (if onNodeComplete cb = None then [] else [(nid, succeeds w i nid)])"
proof -
  from find_member [OF mem] obtain node where f: "find (\<lambda>n. node_id n = nid) nodes = Some node" by blast
  then have id: "node_id node = nid" by (rule find_id)
  let ?st1 = "snd (notify (map_option (\<lambda>f. f nid) (onNodeStart cb)) (NodeStart nid)
                 (snd (addLog cb w nid (label node) Info (''Executing node: '' @ label node) JUndefined st)))"
  from settle_api_quiet [OF q _ pos, of node w nid ?st1] ni id
  obtain st2 where s: "settle cb w node nid i ?st1 = (Inr (), st2)"
    and st2: "length (st_logs st2) = length (st_logs ?st1) + 4"
      "marks (st_logs st2) = marks (st_logs ?st1) @
            [(node_id node, Info), (node_id node, Info), (node_id node, if dispatchOk w i then Success else Error),
             (nid, if dispatchOk w i then Success else Error)]"
      "st_ticks st2 = st_ticks ?st1 + 4"
      "st_completedNodes st2 = st_completedNodes ?st1 @ (if dispatchOk w i then [nid] else [])"
      "st_finalOutput st2 = (if dispatchOk w i then dispatchData w i else st_finalOutput ?st1)"
      "startedIds (st_trace st2) = startedIds (st_trace ?st1)"
      "completions (st_trace st2) = completions (st_trace ?st1) @
            (if onNodeComplete cb = None then [] else [(nid, dispatchOk w i)])"
    by blast
  show ?thesis
    using s st2 ni id
    by (simp add: processEntry_def f and_then_def try_catch_def addLog_quiet [OF quiet_quietLog [OF q]]
          quiet_start [OF q] succeeds_def outputOf_def nodeMarks_def)
qed

lemma processEntry_input_quiet:
  assumes q: "quiet cb" and mem: "''input-node'' \<in> set (map node_id nodes)"
  shows "\<exists>st'. processEntry cb w nodes i ''input-node'' st = (Inr (), st')
      \<and> length (st_logs st') = length (st_logs st) + 3
      \<and> marks (st_logs st') = marks (st_logs st) @ nodeMarks w i ''input-node''
      \<and> st_ticks st' = st_ticks st + 4
      \<and> st_completedNodes st' = st_completedNodes st @ [''input-node'']
      \<and> st_finalOutput st' = initializedPayload (now w (st_ticks st + 2))
      \<and> startedIds (st_trace st') = startedIds (st_trace st) @ (if onNodeStart cb = None then [] else [''input-node''])
      \<and> completions (st_trace st') = completions (st_trace st) @
            (if onNodeComplete cb = None then [] else [(''input-node'', True)])"
proof -
  from find_member [OF mem] obtain node where f: "find (\<lambda>n. node_id n = ''input-node'') nodes = Some node" by blast
  then have id: "node_id node = ''input-node''" by (rule find_id)
  let ?st1 = "snd (notify (map_option (\<lambda>f. f ''input-node'') (onNodeStart cb)) (NodeStart ''input-node'')
                 (snd (addLog cb w ''input-node'' (label node) Info (''Executing node: '' @ label node) JUndefined st)))"
  from settle_input_quiet [OF q id, of w "''input-node''" i ?st1]
  obtain st2 where s: "settle cb w node ''input-node'' i ?st1 = (Inr (), st2)"
    and st2: "length (st_logs st2) = length (st_logs ?st1) + 2"
      "marks (st_logs st2) = marks (st_logs ?st1) @ [(node_id node, Info), (''input-node'', Success)]"
      "st_ticks st2 = st_ticks ?st1 + 3"
      "st_completedNodes st2 = st_completedNodes ?st1 @ [''input-node'']"
      "st_finalOutput st2 = initializedPayload (now w (Suc (st_ticks ?st1)))"
      "startedIds (st_trace st2) = startedIds (st_trace ?st1)"
      "completions (st_trace st2) = completions (st_trace ?st1) @
            (if onNodeComplete cb = None then [] else [(''input-node'', True)])"
    by blast
  show ?thesis
    using s st2 id
    by (simp add: processEntry_def f and_then_def try_catch_def addLog_quiet [OF quiet_quietLog [OF q]]
          quiet_start [OF q] nodeMarks_def)
qed

lemma runQueue_api_quiet:
  assumes q: "quiet cb"
  shows "set ids \<subseteq> set (map node_id nodes) - {''input-node''} \<Longrightarrow> 0 < i \<Longrightarrow>
     \<exists>st'. runQueue cb w nodes i ids st = (Inr (), st')
      \<and> length (st_logs st') = length (st_logs st) + 5 * length ids
      \<and> marks (st_logs st') = marks (st_logs st) @
           concat (map (\<lambda>(k, nid). nodeMarks w k nid) (enumerate i ids))
      \<and> st_completedNodes st' = st_completedNodes st @
           map snd (filter (\<lambda>(k, nid). succeeds w k nid) (enumerate i ids))
      \<and> st_finalOutput st' = last (st_finalOutput st #
           map (\<lambda>(k, nid). outputOf w k nid) (filter (\<lambda>(k, nid). succeeds w k nid) (enumerate i ids)))
      \<and> startedIds (st_trace st') = startedIds (st_trace st) @ (if onNodeStart cb = None then [] else ids)
      \<and> completions (st_trace st') = completions (st_trace st) @
            (if onNodeComplete cb = None then [] else map (\<lambda>(k, nid). (nid, succeeds w k nid)) (enumerate i ids))"
proof (induction ids arbitrary: i st)
  case Nil
  then show ?case by simp
next
  case (Cons nid rest)
  from Cons.prems have mem: "nid \<in> set (map node_id nodes)" and ni: "nid \<noteq> ''input-node''"
    and rest: "set rest \<subseteq> set (map node_id nodes) - {''input-node''}" by auto
  from processEntry_api_quiet [OF q mem ni Cons.prems(2), of w st]
  obtain st1 where p: "processEntry cb w nodes i nid st = (Inr (), st1)"
    and st1: "length (st_logs st1) = length (st_logs st) + 5"
      "marks (st_logs st1) = marks (st_logs st) @ nodeMarks w i nid"
      "st_completedNodes st1 = st_completedNodes st @ (if succeeds w i nid then [nid] else [])"
      "st_finalOutput st1 = (if succeeds w i nid then outputOf w i nid else st_finalOutput st)"
      "startedIds (st_trace st1) = startedIds (st_trace st) @ (if onNodeStart cb = None then [] else [nid])"
      "completions (st_trace st1) = completions (st_trace st) @
            (if onNodeComplete cb = None then [] else [(nid, succeeds w i nid)])"
    by blast
  from Cons.IH [OF rest, of "Suc i" st1]
  obtain st2 where r: "runQueue cb w nodes (Suc i) rest st1 = (Inr (), st2)"
    and st2: "length (st_logs st2) = length (st_logs st1) + 5 * length rest"
      "marks (st_logs st2) = marks (st_logs st1) @
           concat (map (\<lambda>(k, nid). nodeMarks w k nid) (enumerate (Suc i) rest))"
      "st_completedNodes st2 = st_completedNodes st1 @
           map snd (filter (\<lambda>(k, nid). succeeds w k nid) (enumerate (Suc i) rest))"
      "st_finalOutput st2 = last (st_finalOutput st1 #
           map (\<lambda>(k, nid). outputOf w k nid) (filter (\<lambda>(k, nid). succeeds w k nid) (enumerate (Suc i) rest)))"
      "startedIds (st_trace st2) = startedIds (st_trace st1) @ (if onNodeStart cb = None then [] else rest)"
      "completions (st_trace st2) = completions (st_trace st1) @
            (if onNodeComplete cb = None then [] else map (\<lambda>(k, nid). (nid, succeeds w k nid)) (enumerate (Suc i) rest))"
    by auto
  show ?case
    using p r st1 st2 by (auto simp: enumerate_simps)
qed


lemma run_quiet:
  assumes q: "quiet cb"
  shows "\<exists>r tr. QueueFlowExecutor_executeFlow cb w nodes edges = (Inr r, tr)
      \<and> success r \<and> error r = None
      \<and> executionQueue r = createExecutionQueue w nodes
      \<and> length (logs r) = (if createExecutionQueue w nodes = [] then 2 else 5 * length (createExecutionQueue w nodes))
      \<and> marks (logs r) = (''system'', Info) #
           concat (map (\<lambda>(k, nid). nodeMarks w k nid) (enumerate 0 (createExecutionQueue w nodes))) @
           [(''system'', Success)]
      \<and> completedNodes r =
           map snd (filter (\<lambda>(k, nid). succeeds w k nid) (enumerate 0 (createExecutionQueue w nodes)))
      \<and> finalOutput r = last (JNull #
           map (\<lambda>(k, nid). outputOf w k nid)
             (filter (\<lambda>(k, nid). succeeds w k nid) (enumerate 0 (createExecutionQueue w nodes))))
      \<and> startedIds tr = (if onNodeStart cb = None then [] else createExecutionQueue w nodes)
      \<and> completions tr = (if onNodeComplete cb = None then []
           else map (\<lambda>(k, nid). (nid, succeeds w k nid)) (enumerate 0 (createExecutionQueue w nodes)))"
proof (cases "createExecutionQueue w nodes")
  case Nil
  then show ?thesis
    by (simp add: QueueFlowExecutor_executeFlow_def and_then_def try_catch_def runAll_def completed_def
          addLog_quiet [OF quiet_quietLog [OF q]] initialState_def)
next
  case (Cons entry rest)
  from queue_rest_ids [OF Cons] have e: "entry = ''input-node''"
    and mem: "''input-node'' \<in> set (map node_id nodes)"
    and rest: "set rest \<subseteq> set (map node_id nodes) - {''input-node''}" by auto
  note ql = quiet_quietLog [OF q]
  define st0 where "st0 = snd (addLog cb w ''system'' ''System'' Info
                 (''Starting workflow execution with '' @ show_nat (Suc (length rest)) @ '' nodes'')
                 JUndefined initialState)"
  have a0: "addLog cb w ''system'' ''System'' Info
                 (''Starting workflow execution with '' @ show_nat (Suc (length rest)) @ '' nodes'')
                 JUndefined initialState = (Inr (), st0)"
    by (simp add: st0_def addLog_quiet [OF ql])
  have st0: "length (st_logs st0) = 1" "marks (st_logs st0) = [(''system'', Info)]"
      "st_ticks st0 = 1" "st_completedNodes st0 = []" "st_finalOutput st0 = JNull"
      "startedIds (st_trace st0) = []" "completions (st_trace st0) = []"
    by (simp_all add: st0_def addLog_quiet [OF ql] initialState_def)
  from processEntry_input_quiet [OF q mem, of w 0 st0]
  obtain st1 where p: "processEntry cb w nodes 0 ''input-node'' st0 = (Inr (), st1)"
    and st1: "length (st_logs st1) = length (st_logs st0) + 3"
      "marks (st_logs st1) = marks (st_logs st0) @ nodeMarks w 0 ''input-node''"
      "st_completedNodes st1 = st_completedNodes st0 @ [''input-node'']"
      "st_finalOutput st1 = initializedPayload (now w (st_ticks st0 + 2))"
      "startedIds (st_trace st1) = startedIds (st_trace st0) @ (if onNodeStart cb = None then [] else [''input-node''])"
      "completions (st_trace st1) = completions (st_trace st0) @
            (if onNodeComplete cb = None then [] else [(''input-node'', True)])"
    by blast
  from runQueue_api_quiet [OF q rest, of 1 w st1]
  obtain st2 where r: "runQueue cb w nodes (Suc 0) rest st1 = (Inr (), st2)"
    and st2: "length (st_logs st2) = length (st_logs st1) + 5 * length rest"
      "marks (st_logs st2) = marks (st_logs st1) @
           concat (map (\<lambda>(k, nid). nodeMarks w k nid) (enumerate (Suc 0) rest))"
      "st_completedNodes st2 = st_completedNodes st1 @
           map snd (filter (\<lambda>(k, nid). succeeds w k nid) (enumerate (Suc 0) rest))"
      "st_finalOutput st2 = last (st_finalOutput st1 #
           map (\<lambda>(k, nid). outputOf w k nid) (filter (\<lambda>(k, nid). succeeds w k nid) (enumerate (Suc 0) rest)))"
      "startedIds (st_trace st2) = startedIds (st_trace st1) @ (if onNodeStart cb = None then [] else rest)"
      "completions (st_trace st2) = completions (st_trace st1) @
            (if onNodeComplete cb = None then [] else map (\<lambda>(k, nid). (nid, succeeds w k nid)) (enumerate (Suc 0) rest))"
    by auto
  have loop: "runQueue cb w nodes 0 (entry # rest) st0 = (Inr (), st2)"
    using p r e by simp
  define st3 where "st3 = snd (addLog cb w ''system'' ''System'' Success
                 ''Workflow execution completed successfully'' JUndefined st2)"
  have a3: "addLog cb w ''system'' ''System'' Success
                 ''Workflow execution completed successfully'' JUndefined st2 = (Inr (), st3)"
    by (simp add: st3_def addLog_quiet [OF ql])
  have st3: "length (st_logs st3) = length (st_logs st2) + 1"
      "marks (st_logs st3) = marks (st_logs st2) @ [(''system'', Success)]"
      "st_completedNodes st3 = st_completedNodes st2" "st_finalOutput st3 = st_finalOutput st2"
      "startedIds (st_trace st3) = startedIds (st_trace st2)"
      "completions (st_trace st3) = completions (st_trace st2)"
    by (simp_all add: st3_def addLog_quiet [OF ql])
  have run: "QueueFlowExecutor_executeFlow cb w nodes edges =
      (Inr \<lparr>success = True, error = None, finalOutput = st_finalOutput st3,
            executionQueue = entry # rest, completedNodes = st_completedNodes st3,
            logs = st_logs st3\<rparr>, st_trace st3)"
    by (simp add: QueueFlowExecutor_executeFlow_def Cons and_then_def try_catch_def runAll_def
          completed_def a0 [simplified] e p r a3 Let_def)
  have fin: "st_finalOutput st1 = outputOf w 0 ''input-node''"
    using st1(4) st0 by (simp add: outputOf_def numeral_3_eq_3)
  have ok0: "succeeds w 0 ''input-node''" by (simp add: succeeds_def)
  show ?thesis
    using st0 st1(1,2,3,5,6) st2 st3 fin ok0
    by (simp add: run Cons enumerate_simps e)
qed



lemma run_aborted:
  assumes ql: "quietLog cb"
    and raised: "runAll cb w nodes (createExecutionQueue w nodes)
        (snd (addLog cb w ''system'' ''System'' Info
           (''Starting workflow execution with '' @ show_nat (length (createExecutionQueue w nodes)) @ '' nodes'')
           JUndefined initialState)) = (Inl t, st')"
    and msg: "errorMessage t = Inr m"
  shows "\<exists>tr. QueueFlowExecutor_executeFlow cb w nodes edges =
      (Inr \<lparr>success = False, error = Some m, finalOutput = JUndefined,
            executionQueue = createExecutionQueue w nodes, completedNodes = st_completedNodes st',
            logs = st_logs st' @
              [\<lparr>nodeId = ''system'', nodeName = ''System'', timestamp = now w (st_ticks st'),
                log_type = Error, message = ''Workflow execution failed: '' @ m, data = JUndefined\<rparr>]\<rparr>, tr)"
proof -
  define st0 where "st0 = snd (addLog cb w ''system'' ''System'' Info
           (''Starting workflow execution with '' @ show_nat (length (createExecutionQueue w nodes)) @ '' nodes'')
           JUndefined initialState)"
  have a0: "addLog cb w ''system'' ''System'' Info
           (''Starting workflow execution with '' @ show_nat (length (createExecutionQueue w nodes)) @ '' nodes'')
           JUndefined initialState = (Inr (), st0)"
    by (simp add: st0_def addLog_quiet [OF ql])
  from raised have r: "runAll cb w nodes (createExecutionQueue w nodes) st0 = (Inl t, st')"
    by (simp add: st0_def)
  have outer: "QueueFlowExecutor_executeFlow cb w nodes edges =
      (case try_catch (runAll cb w nodes (createExecutionQueue w nodes))
              (runFailed cb w (createExecutionQueue w nodes)) st0 of (r, st) \<Rightarrow> (r, st_trace st))"
    by (simp add: QueueFlowExecutor_executeFlow_def Let_def and_then_def a0 [simplified])
  have handled: "\<exists>st''. try_catch (runAll cb w nodes (createExecutionQueue w nodes))
              (runFailed cb w (createExecutionQueue w nodes)) st0 =
      (Inr \<lparr>success = False, error = Some m, finalOutput = JUndefined,
            executionQueue = createExecutionQueue w nodes, completedNodes = st_completedNodes st',
            logs = st_logs st' @
              [\<lparr>nodeId = ''system'', nodeName = ''System'', timestamp = now w (st_ticks st'),
                log_type = Error, message = ''Workflow execution failed: '' @ m, data = JUndefined\<rparr>]\<rparr>, st'')"
    by (simp add: try_catch_def r runFailed_def msg and_then_def addLog_quiet [OF ql] aborted_def)
  then show ?thesis
    by (auto simp: outer)
qed

lemma entry_failure_caught:
  assumes ql: "quietLog cb"
    and raised: "settle cb w node nid i st = (Inl t, st')"
    and msg: "errorMessage t = Inr m"
    and accepts: "\<forall>f. onNodeComplete cb = Some f \<longrightarrow> f nid (failedResult m) = None"
  shows "\<exists>st''. try_catch (settle cb w node nid i) (settleFailed cb w node nid) st = (Inr (), st'')
      \<and> st_logs st'' = st_logs st' @
            [\<lparr>nodeId = nid, nodeName = label node, timestamp = now w (st_ticks st'),
              log_type = Error, message = ''Execution error: '' @ m, data = JUndefined\<rparr>]
      \<and> st_completedNodes st'' = st_completedNodes st'
      \<and> st_finalOutput st'' = st_finalOutput st'
      \<and> (onNodeComplete cb \<noteq> None \<longrightarrow>
            st_trace st'' \<noteq> [] \<and> last (st_trace st'') = NodeComplete nid (failedResult m))"
  using accepts
  by (cases "onNodeComplete cb")
     (simp_all add: try_catch_def raised settleFailed_def msg and_then_def addLog_quiet [OF ql])

lemma executeNode_noLog_input:
  "node_id node = ''input-node'' \<Longrightarrow>
     executeNode w node i noLog st =
       (Inr \<lparr>success = True, error = None, output_value = initializedPayload (now w (st_ticks st)),
             node_logs = [''Input node initialized'']\<rparr>, st\<lparr>st_ticks := Suc (st_ticks st)\<rparr>)"
  by (simp add: executeNode_def noLog_def and_then_def returns_def readClock_def)

lemma executeNode_noLog_api:
  assumes "node_id node \<noteq> ''input-node''" "0 < i"
  shows "\<exists>r st'. executeNode w node i noLog st = (Inr r, st') \<and> success r = dispatchOk w i"
proof -
  from endpointFor_Some [OF assms(2)] obtain ep where ep: "endpointFor i = Some ep" by blast
  show ?thesis
    using assms(1) ep
    by (cases "fetch w i")
       (auto simp: executeNode_def callEndpoint_def callFailed_def and_then_def try_catch_def
          throws_def returns_def noLog_def dispatchOk_def)
qed

text \<open>
  C8: for every node list and whole-number cursor, \<open>executeNodeStepByStep\<close> returns a result
  with \<open>hasNext = cursor + 1 < queueLength\<close>; a cursor at or past the queue length gives the
  failed result "No more nodes to execute" with \<open>hasNext: false\<close>; and cursor 0 on a non-empty
  queue (whose first entry is the entry node) gives the \<open>initialized\<close> payload with
  \<open>success: true\<close>, and \<open>hasNext: true\<close> when the queue has further nodes.
\<close>

theorem step_by_step_cursor:
  "(\<exists>res. executeNodeStepByStep w nodes c = Inr (res, c + 1 < int (length (createExecutionQueue w nodes))))
   \<and> (int (length (createExecutionQueue w nodes)) \<le> c \<longrightarrow>
        executeNodeStepByStep w nodes c = Inr (noMoreNodes, False)
        \<and> \<not> success noMoreNodes \<and> error noMoreNodes \<noteq> None)
   \<and> (createExecutionQueue w nodes \<noteq> [] \<longrightarrow>
        executeNodeStepByStep w nodes 0 =
          Inr (\<lparr>success = True, error = None, output_value = initializedPayload (now w 0),
                node_logs = [''Input node initialized'']\<rparr>,
               1 < length (createExecutionQueue w nodes)))"
proof (intro conjI impI)
  show "\<exists>res. executeNodeStepByStep w nodes c = Inr (res, c + 1 < int (length (createExecutionQueue w nodes)))"
  proof (cases "int (length (createExecutionQueue w nodes)) \<le> c")
    case True
    then show ?thesis by (simp add: executeNodeStepByStep_def)
  next
    case False
    show ?thesis
    proof (cases "c < 0")
      case True
      with False show ?thesis by (simp add: executeNodeStepByStep_def)
    next
      case nonneg: False
      with False have lt: "nat c < length (createExecutionQueue w nodes)" by linarith
      then obtain entry rest where q: "createExecutionQueue w nodes = entry # rest"
        by (cases "createExecutionQueue w nodes") auto
      from queue_rest_ids [OF q] have e: "entry = ''input-node''"
        and mem: "''input-node'' \<in> set (map node_id nodes)"
        and rest: "set rest \<subseteq> set (map node_id nodes) - {''input-node''}" by auto
      let ?nid = "createExecutionQueue w nodes ! nat c"
      have el: "elem_at (createExecutionQueue w nodes) (nat c) = Some ?nid"
        using lt by (rule elem_at_nth)
      have "?nid \<in> set (createExecutionQueue w nodes)" using lt by simp
      then have nmem: "?nid \<in> set (map node_id nodes)" using q e mem rest by auto
      from find_member [OF nmem] obtain node where f: "find (\<lambda>n. node_id n = ?nid) nodes = Some node"
        by blast
      then have id: "node_id node = ?nid" by (rule find_id)
      have "\<exists>r st'. executeNode w node (nat c) noLog initialState = (Inr r, st')"
      proof (cases "nat c")
        case 0
        then have "node_id node = ''input-node''" using id q e by simp
        then show ?thesis by (simp add: executeNode_noLog_input)
      next
        case (Suc k)
        then have "?nid \<in> set rest" using q lt by simp
        then have "node_id node \<noteq> ''input-node''" using id rest by auto
        from executeNode_noLog_api [OF this, of "nat c" w initialState] Suc
        show ?thesis by auto
      qed
      then obtain r st' where ex: "executeNode w node (nat c) noLog initialState = (Inr r, st')" by blast
      show ?thesis
        using False nonneg
        by (simp add: executeNodeStepByStep_def Let_def el f ex)
    qed
  qed
next
  assume "int (length (createExecutionQueue w nodes)) \<le> c"
  then show "executeNodeStepByStep w nodes c = Inr (noMoreNodes, False)"
    by (simp add: executeNodeStepByStep_def)
next
  show "\<not> success noMoreNodes" by (simp add: noMoreNodes_def)
next
  show "error noMoreNodes \<noteq> None" by (simp add: noMoreNodes_def)
next
  assume ne: "createExecutionQueue w nodes \<noteq> []"
  then obtain entry rest where q: "createExecutionQueue w nodes = entry # rest"
    by (cases "createExecutionQueue w nodes") auto
  from queue_rest_ids [OF q] have e: "entry = ''input-node''"
    and mem: "''input-node'' \<in> set (map node_id nodes)" by auto
  from find_member [OF mem] obtain node where f: "find (\<lambda>n. node_id n = ''input-node'') nodes = Some node"
    by blast
  then have id: "node_id node = ''input-node''" by (rule find_id)
  show "executeNodeStepByStep w nodes 0 =
          Inr (\<lparr>success = True, error = None, output_value = initializedPayload (now w 0),
                node_logs = [''Input node initialized'']\<rparr>,
               1 < length (createExecutionQueue w nodes))"
    by (simp add: executeNodeStepByStep_def Let_def q e f executeNode_noLog_input [OF id] initialState_def)
qed


theorem step_by_step_cursor_witness:
  "int (length (createExecutionQueue sample_world scenario_nodes)) \<le> 3
   \<and> executeNodeStepByStep sample_world scenario_nodes 3 = Inr (noMoreNodes, False)
   \<and> createExecutionQueue sample_world scenario_nodes \<noteq> []
   \<and> executeNodeStepByStep sample_world scenario_nodes 0 =
        Inr (\<lparr>success = True, error = None, output_value = initializedPayload (now sample_world 0),
              node_logs = [''Input node initialized'']\<rparr>, True)
   \<and> (\<exists>res. executeNodeStepByStep sample_world scenario_nodes 2 = Inr (res, False))"
  using step_by_step_cursor [of sample_world scenario_nodes 3] step_by_step_cursor [of sample_world scenario_nodes 0]
    step_by_step_cursor [of sample_world scenario_nodes 2]
  by (simp add: scenario_queue)

lemma quiet_no_callbacks: "quiet no_callbacks"
  by (simp add: quiet_def quietLog_def no_callbacks_def)

text \<open>
  C7, as the claim states it, fails: a queue of one node (the entry node) leaves five log
  records, not \<open>2 * 1 + 2\<close>.
\<close>

theorem entry_alone_leaves_five_records:
  "(case QueueFlowExecutor_executeFlow no_callbacks sample_world [entry_node] [] of
      (Inr r, tr) \<Rightarrow> length (executionQueue r) = 1 \<and> length (logs r) = 5
         \<and> length (logs r) \<noteq> 2 * length (executionQueue r) + 2
    | (Inl t, tr) \<Rightarrow> False)"
proof -
  from run_quiet [OF quiet_no_callbacks, of sample_world "[entry_node]" "[]"]
  obtain r tr where "QueueFlowExecutor_executeFlow no_callbacks sample_world [entry_node] [] = (Inr r, tr)"
    and "executionQueue r = createExecutionQueue sample_world [entry_node]"
    and "length (logs r) = (if createExecutionQueue sample_world [entry_node] = [] then 2
                            else 5 * length (createExecutionQueue sample_world [entry_node]))"
    by blast
  then show ?thesis by (simp add: entry_queue)
qed

text \<open>
  C7, amended: when the callbacks return normally, the log of \<open>executeFlow\<close> is one leading
  system record, then for every queue entry in turn its start record, the records
  \<open>executeNode\<close> itself writes through \<open>addLog\<close> (one for the entry node; three for any other
  node, the last of them of severity success or error) and the terminal record of the loop
  (success or error), then one trailing system record: \<open>5 * n\<close> records for a queue of
  \<open>n \<ge> 1\<close> nodes, and two for an empty queue.
\<close>

theorem quiet_run_log_records:
  "quiet cb \<Longrightarrow>
     \<exists>r tr. QueueFlowExecutor_executeFlow cb w nodes edges = (Inr r, tr)
       \<and> marks (logs r) = (''system'', Info) #
            concat (map (\<lambda>(k, nid). nodeMarks w k nid) (enumerate 0 (executionQueue r))) @
            [(''system'', Success)]
       \<and> length (logs r) = (if executionQueue r = [] then 2 else 5 * length (executionQueue r))"
proof -
  assume "quiet cb"
  from run_quiet [OF this, of w nodes edges] obtain r tr
    where "QueueFlowExecutor_executeFlow cb w nodes edges = (Inr r, tr)"
      and "executionQueue r = createExecutionQueue w nodes"
      and "length (logs r) = (if createExecutionQueue w nodes = [] then 2 else 5 * length (createExecutionQueue w nodes))"
      and "marks (logs r) = (''system'', Info) #
           concat (map (\<lambda>(k, nid). nodeMarks w k nid) (enumerate 0 (createExecutionQueue w nodes))) @
           [(''system'', Success)]"
    by blast
  then show ?thesis by auto
qed

theorem quiet_run_log_records_witness:
  "quiet no_callbacks
   \<and> (\<exists>r tr. QueueFlowExecutor_executeFlow no_callbacks sample_world scenario_nodes [] = (Inr r, tr)
        \<and> executionQueue r = [''input-node'', ''node-1000'', ''node-2000'']
        \<and> length (logs r) = 15)"
proof -
  from quiet_run_log_records [OF quiet_no_callbacks, of sample_world scenario_nodes "[]"]
  obtain r tr where run: "QueueFlowExecutor_executeFlow no_callbacks sample_world scenario_nodes [] = (Inr r, tr)"
    and len: "length (logs r) = (if executionQueue r = [] then 2 else 5 * length (executionQueue r))"
    by blast
  from run_quiet [OF quiet_no_callbacks, of sample_world scenario_nodes "[]"] run
  have "executionQueue r = createExecutionQueue sample_world scenario_nodes" by auto
  with run len quiet_no_callbacks show ?thesis by (simp add: scenario_queue)
qed

lemmas run_defs = settle_def observe_def executeNode_def and_then_def try_catch_def returns_def throws_def
  readClock_def addLog_def notify_def recordSuccess_def processEntry_def runAll_def Let_def

lemma sample_verdicts:
  "succeeds sample_world k nid = (nid = ''input-node'' \<or> k \<noteq> Suc 0)"
  "outputOf sample_world k nid =
     (if nid = ''input-node'' then initializedPayload ''3'' else if k = Suc 0 then JUndefined else JStr ''pong'')"
  by (simp_all add: succeeds_def outputOf_def dispatchOk_def dispatchData_def sample_world_def
        show_nat.simps digit_char_def)

lemmas flow_run_defs = runFailed_def aborted_def completed_def settleFailed_def callEndpoint_def
  callFailed_def endpointFor_def API_ENDPOINTS_def initialState_def succeeded_def

lemma scenario_finds:
  "find (\<lambda>n. node_id n = ''input-node'') scenario_nodes = Some entry_node"
  "find (\<lambda>n. node_id n = ''node-1000'') scenario_nodes = Some (mkNode ''node-1000'' [])"
  "find (\<lambda>n. node_id n = ''node-2000'') scenario_nodes = Some (mkNode ''node-2000'' [])"
  by (simp_all add: scenario_nodes_def entry_node_def mkNode_def)

lemma two_queue: "createExecutionQueue w two_nodes = [''input-node'', ''node-1000'']"
proof -
  have "sortBy w byCreationTime [mkNode ''node-1000'' []] = [mkNode ''node-1000'' []]"
    by (simp add: sortBy_parsed sample_times)
  then show ?thesis
    by (simp add: createExecutionQueue_def two_nodes_def entry_node_def mkNode_def)
qed

lemma two_finds:
  "find (\<lambda>n. node_id n = ''input-node'') two_nodes = Some entry_node"
  "find (\<lambda>n. node_id n = ''node-1000'') two_nodes = Some (mkNode ''node-1000'' [])"
  by (simp_all add: two_nodes_def entry_node_def mkNode_def)

text \<open>
  A run in which \<open>onNodeStart\<close> throws for the second queue entry, and one in which it
  throws for the first: both end in the outer \<open>catch\<close>.
\<close>

lemma second_start_fails_run:
  "\<exists>r tr. QueueFlowExecutor_executeFlow failing_second sample_world scenario_nodes [] = (Inr r, tr)
      \<and> \<not> success r \<and> error r = Some ''halt''
      \<and> completedNodes r = [''input-node''] \<and> finalOutput r = JUndefined
      \<and> map (\<lambda>(nid, res). output_value res) (succeeded tr) = [initializedPayload ''3'']"
  by (simp only: QueueFlowExecutor_executeFlow_def scenario_queue)
     (simp add: flow_run_defs scenario_finds run_defs failing_second_def entry_node_def
        mkNode_def sample_world_def show_nat.simps digit_char_def)

lemma first_start_fails_run:
  "\<exists>r tr. QueueFlowExecutor_executeFlow failing_start sample_world [entry_node] [] = (Inr r, tr)
      \<and> \<not> success r \<and> error r = Some ''halt''
      \<and> completedNodes r = [] \<and> finalOutput r = JUndefined \<and> length (logs r) = 3"
  by (simp only: QueueFlowExecutor_executeFlow_def entry_queue)
     (simp add: flow_run_defs run_defs failing_start_def entry_node_def)

text \<open>
  A run in which \<open>onNodeComplete\<close> throws an \<open>Error\<close> inside the inner \<open>try\<close>: the inner
  \<open>catch\<close> logs it and reports a failed result, the next queue entry is executed, and the
  run returns \<open>success: true\<close>.
\<close>

lemma readable_throw_is_contained:
  "\<exists>r tr. QueueFlowExecutor_executeFlow failing_complete sample_world two_nodes [] = (Inr r, tr)
      \<and> success r
      \<and> map fst (executed tr) = [''input-node'', ''node-1000'']
      \<and> completions tr = [(''input-node'', True), (''input-node'', False), (''node-1000'', False)]
      \<and> completedNodes r = [''input-node'']
      \<and> length (logs r) = 11"
  by (simp only: QueueFlowExecutor_executeFlow_def two_queue)
     (simp add: flow_run_defs two_finds run_defs failing_complete_def entry_node_def
        mkNode_def sample_world_def failedResult_def)

lemma executed_append [simp]: "executed (xs @ ys) = executed xs @ executed ys"
  by (induction xs rule: executed.induct) auto

lemma untouched_trans: "untouched a b \<Longrightarrow> untouched b c \<Longrightarrow> untouched a c"
  by (simp add: untouched_def)

lemma keepsD: "keeps m \<Longrightarrow> m st = (r, st') \<Longrightarrow> untouched st st'"
  by (metis keeps_def snd_conv)

lemma keeps_returns: "keeps (returns x)"
  by (simp add: keeps_def returns_def untouched_def)

lemma keeps_throws: "keeps (throws t)"
  by (simp add: keeps_def throws_def untouched_def)

lemma keeps_and_then:
  assumes "keeps m" "\<And>x. keeps (f x)"
  shows "keeps (and_then m f)"
  unfolding keeps_def
proof
  fix st
  obtain r st1 where m: "m st = (r, st1)" by (cases "m st")
  from keepsD [OF assms(1) m] have u: "untouched st st1" .
  show "untouched st (snd (and_then m f st))"
  proof (cases r)
    case (Inl t)
    with m u show ?thesis by (simp add: and_then_def)
  next
    case (Inr x)
    obtain r2 st2 where f: "f x st1 = (r2, st2)" by (cases "f x st1")
    from keepsD [OF assms(2) f] u have "untouched st st2" by (rule untouched_trans [rotated])
    with m Inr f show ?thesis by (simp add: and_then_def)
  qed
qed

lemma keeps_try_catch:
  assumes "keeps m" "\<And>t. keeps (h t)"
  shows "keeps (try_catch m h)"
  unfolding keeps_def
proof
  fix st
  obtain r st1 where m: "m st = (r, st1)" by (cases "m st")
  from keepsD [OF assms(1) m] have u: "untouched st st1" .
  show "untouched st (snd (try_catch m h st))"
  proof (cases r)
    case (Inr x)
    with m u show ?thesis by (simp add: try_catch_def)
  next
    case (Inl t)
    obtain r2 st2 where f: "h t st1 = (r2, st2)" by (cases "h t st1")
    from keepsD [OF assms(2) f] u have "untouched st st2" by (rule untouched_trans [rotated])
    with m Inl f show ?thesis by (simp add: try_catch_def)
  qed
qed

lemma keeps_notify: "executed [c] = [] \<Longrightarrow> keeps (notify a c)"
  by (auto simp: keeps_def notify_def untouched_def split: option.splits)

lemma keeps_addLog: "keeps (addLog cb w nid nname ty msg d)"
  by (auto simp: keeps_def addLog_def Let_def notify_def untouched_def split: option.splits)

lemma keeps_readClock: "keeps (readClock w)"
  by (simp add: keeps_def readClock_def untouched_def)

lemma keeps_callEndpoint:
  assumes "\<And>a b c d e. keeps (logf a b c d e)"
  shows "keeps (callEndpoint w node i logf ep)"
  unfolding callEndpoint_def
  by (intro keeps_and_then assms) (auto split: exchange.splits intro!: keeps_throws keeps_and_then keeps_returns assms)

lemma keeps_callFailed:
  assumes "\<And>a b c d e. keeps (logf a b c d e)"
  shows "keeps (callFailed node logf ep err)"
  unfolding callFailed_def
  by (auto split: sum.splits intro!: keeps_throws keeps_and_then keeps_returns assms)

lemma keeps_executeNode:
  assumes "\<And>a b c d e. keeps (logf a b c d e)"
  shows "keeps (executeNode w node i logf)"
  unfolding executeNode_def
  by (auto split: option.splits
        intro!: keeps_throws keeps_and_then keeps_try_catch keeps_returns keeps_readClock
          keeps_callEndpoint keeps_callFailed assms)

lemma keeps_settleFailed: "keeps (settleFailed cb w node nid err)"
  unfolding settleFailed_def
  by (auto split: sum.splits intro!: keeps_throws keeps_and_then keeps_addLog keeps_notify)

lemma keeps_aborted: "keeps (aborted queue m)"
  by (simp add: keeps_def aborted_def untouched_def)

lemma keeps_runFailed: "keeps (runFailed cb w queue err)"
  unfolding runFailed_def
  by (auto split: sum.splits intro!: keeps_throws keeps_and_then keeps_addLog keeps_aborted)

lemma accounted_untouched: "accounted st \<Longrightarrow> untouched st st' \<Longrightarrow> accounted st'"
  by (simp add: accounted_def untouched_def succeeded_def)

lemma settle_account:
  assumes acc: "accounted st" and run: "settle cb w node nid i st = (res, st')"
  shows "accounted st'
     \<and> (\<exists>es. executed (st_trace st') = executed (st_trace st) @ es \<and> (es = [] \<or> (\<exists>r. es = [(nid, r)])))"
proof -
  obtain o1 st1 where ex: "executeNode w node i (addLog cb w) st = (o1, st1)"
    by (cases "executeNode w node i (addLog cb w) st")
  have "keeps (executeNode w node i (addLog cb w))"
    by (rule keeps_executeNode) (rule keeps_addLog)
  from keepsD [OF this ex] have u1: "untouched st st1" .
  show ?thesis
  proof (cases o1)
    case (Inl t)
    with ex run have "st' = st1" by (simp add: settle_def and_then_def)
    with u1 acc show ?thesis by (auto simp: accounted_untouched untouched_def)
  next
    case (Inr r)
    define st3 where "st3 =
      (if success r
       then st1\<lparr>st_trace := st_trace st1 @ [Executed nid r], st_finalOutput := output_value r,
                st_completedNodes := st_completedNodes st1 @ [nid]\<rparr>
       else st1\<lparr>st_trace := st_trace st1 @ [Executed nid r]\<rparr>)"
    define rest where "rest =
      and_then
        (if success r
         then addLog cb w nid (label node) Success ''Node executed successfully'' (output_value r)
         else addLog cb w nid (label node) Error
            (case error r of None \<Rightarrow> ''Execution failed''
             | Some m \<Rightarrow> if m = [] then ''Execution failed'' else m) JUndefined)
        (\<lambda>_. notify (map_option (\<lambda>f. f nid r) (onNodeComplete cb)) (NodeComplete nid r))"
    have "settle cb w node nid i st = rest st3"
      by (simp add: settle_def and_then_def ex Inr observe_def recordSuccess_def rest_def st3_def)
    with run have r3: "rest st3 = (res, st')" by simp
    have "keeps rest"
      unfolding rest_def by (intro keeps_and_then keeps_notify) (simp_all add: keeps_addLog)
    from keepsD [OF this r3] have u3: "untouched st3 st'" .
    have e3: "executed (st_trace st3) = executed (st_trace st) @ [(nid, r)]"
      using u1 by (simp add: st3_def untouched_def)
    have a3: "accounted st3"
      using acc u1 by (simp add: accounted_def succeeded_def untouched_def st3_def)
    from accounted_untouched [OF a3 u3] e3 u3 show ?thesis
      by (auto simp: untouched_def)
  qed
qed

lemma processEntry_account:
  assumes acc: "accounted st" and run: "processEntry cb w nodes i nid st = (res, st')"
  shows "accounted st'
     \<and> (\<exists>es. executed (st_trace st') = executed (st_trace st) @ es \<and> (es = [] \<or> (\<exists>r. es = [(nid, r)])))"
proof (cases "find (\<lambda>n. node_id n = nid) nodes")
  case None
  with run have "addLog cb w nid ''Unknown'' Error ''Node not found in workflow'' JUndefined st = (res, st')"
    by (simp add: processEntry_def)
  from keepsD [OF keeps_addLog this] acc show ?thesis
    by (auto simp: accounted_untouched untouched_def)
next
  case (Some node)
  define prelude where "prelude =
    and_then (addLog cb w nid (label node) Info (''Executing node: '' @ label node) JUndefined)
      (\<lambda>_. notify (map_option (\<lambda>f. f nid) (onNodeStart cb)) (NodeStart nid))"
  have kp: "keeps prelude"
    unfolding prelude_def by (intro keeps_and_then keeps_notify keeps_addLog) simp
  have pe: "processEntry cb w nodes i nid =
      and_then prelude (\<lambda>_. try_catch (settle cb w node nid i) (settleFailed cb w node nid))"
    by (rule ext) (simp add: processEntry_def Some prelude_def and_then_def split: prod.splits sum.splits)
  obtain o1 st1 where p: "prelude st = (o1, st1)" by (cases "prelude st")
  from keepsD [OF kp p] have u1: "untouched st st1" .
  show ?thesis
  proof (cases o1)
    case (Inl t)
    with run p have "st' = st1" by (simp add: pe and_then_def)
    with u1 acc show ?thesis by (auto simp: accounted_untouched untouched_def)
  next
    case (Inr u)
    obtain o2 st2 where s: "settle cb w node nid i st1 = (o2, st2)"
      by (cases "settle cb w node nid i st1")
    from settle_account [OF accounted_untouched [OF acc u1] s]
    have a2: "accounted st2"
      and e2: "\<exists>es. executed (st_trace st2) = executed (st_trace st1) @ es \<and> (es = [] \<or> (\<exists>r. es = [(nid, r)]))"
      by simp_all
    show ?thesis
    proof (cases o2)
      case ok: (Inr v)
      with run p Inr s have "st' = st2" by (simp add: pe and_then_def try_catch_def)
      with a2 e2 u1 show ?thesis by (simp add: untouched_def)
    next
      case (Inl t)
      with run p Inr s have "settleFailed cb w node nid t st2 = (res, st')"
        by (simp add: pe and_then_def try_catch_def)
      from keepsD [OF keeps_settleFailed this] have u3: "untouched st2 st'" .
      from accounted_untouched [OF a2 u3] e2 u1 u3 show ?thesis by (simp add: untouched_def)
    qed
  qed
qed

lemma runQueue_account:
  "accounted st \<Longrightarrow> runQueue cb w nodes i ids st = (res, st') \<Longrightarrow>
     accounted st'
     \<and> (\<exists>es. executed (st_trace st') = executed (st_trace st) @ es \<and> subseq (map fst es) ids)"
proof (induction ids arbitrary: i st)
  case Nil
  then show ?case by simp
next
  case (Cons nid rest)
  obtain o1 st1 where p: "processEntry cb w nodes i nid st = (o1, st1)"
    by (cases "processEntry cb w nodes i nid st")
  from processEntry_account [OF Cons.prems(1) p]
  obtain es1 where a1: "accounted st1"
    and e1: "executed (st_trace st1) = executed (st_trace st) @ es1" "es1 = [] \<or> (\<exists>r. es1 = [(nid, r)])"
    by blast
  show ?case
  proof (cases o1)
    case (Inl t)
    with Cons.prems(2) p have "st' = st1" by simp
    with a1 e1 show ?thesis by auto
  next
    case (Inr u)
    with Cons.prems(2) p have "runQueue cb w nodes (Suc i) rest st1 = (res, st')" by simp
    from Cons.IH [OF a1 this]
    obtain es2 where a2: "accounted st'"
      and e2: "executed (st_trace st') = executed (st_trace st1) @ es2" "subseq (map fst es2) rest"
      by blast
    from e1(2) e2(2) have "subseq (map fst (es1 @ es2)) (nid # rest)" by auto
    with a2 e1(1) e2(1) show ?thesis by auto
  qed
qed

text \<open>
  C9, amended: in every run of \<open>executeFlow\<close> that returns a result, \<open>completedNodes\<close> holds
  exactly the ids of the queue entries whose execution (\<open>executeNode\<close>) returned
  \<open>success: true\<close>, in queue order. In a run that returns \<open>success: true\<close>, \<open>finalOutput\<close> is
  the output of the last of them, so a later failure leaves it as it was, and \<open>null\<close> when
  there is none. A run that ends in the outer \<open>catch\<close> (\<open>success: false\<close>) returns
  \<open>completedNodes\<close> and no \<open>finalOutput\<close>.
\<close>

theorem completed_nodes_are_successful_returns:
  assumes "QueueFlowExecutor_executeFlow cb w nodes edges = (Inr r, tr)"
  shows "completedNodes r = map fst (succeeded tr)
     \<and> subseq (map fst (executed tr)) (executionQueue r)
     \<and> executionQueue r = createExecutionQueue w nodes
     \<and> (success r \<longrightarrow> finalOutput r = last (JNull # map (\<lambda>(nid, res). output_value res) (succeeded tr)))
     \<and> (\<not> success r \<longrightarrow> finalOutput r = JUndefined)"
proof -
  define q where "q = createExecutionQueue w nodes"
  define first where "first = addLog cb w ''system'' ''System'' Info
                 (''Starting workflow execution with '' @ show_nat (length q) @ '' nodes'') JUndefined"
  obtain o0 st0 where f: "first initialState = (o0, st0)" by (cases "first initialState")
  have a_init: "accounted initialState" by (simp add: accounted_def initialState_def succeeded_def)
  have "keeps first" by (simp add: first_def keeps_addLog)
  from keepsD [OF this f] have u0: "untouched initialState st0" .
  then have a0: "accounted st0" and e0: "executed (st_trace st0) = []"
    using a_init by (simp_all add: accounted_untouched untouched_def initialState_def)
  have whole: "QueueFlowExecutor_executeFlow cb w nodes edges =
      (case and_then first (\<lambda>_. try_catch (runAll cb w nodes q) (runFailed cb w q)) initialState of
         (r, st) \<Rightarrow> (r, st_trace st))"
    by (simp add: QueueFlowExecutor_executeFlow_def Let_def q_def first_def)
  show ?thesis
  proof (cases o0)
    case (Inl t)
    with assms f show ?thesis by (simp add: whole and_then_def)
  next
    case (Inr u)
    obtain o1 st1 where l: "runQueue cb w nodes 0 q st0 = (o1, st1)"
      by (cases "runQueue cb w nodes 0 q st0")
    from runQueue_account [OF a0 l] e0
    have a1: "accounted st1" and e1: "subseq (map fst (executed (st_trace st1))) q"
      by auto
    define closing where "closing = addLog cb w ''system'' ''System'' Success
        ''Workflow execution completed successfully'' JUndefined"
    have ra: "runAll cb w nodes q = and_then (runQueue cb w nodes 0 q) (\<lambda>_. and_then closing (\<lambda>_. completed q))"
      by (simp add: runAll_def closing_def)
    have failed: "completedNodes r = map fst (succeeded tr)
       \<and> subseq (map fst (executed tr)) (executionQueue r)
       \<and> executionQueue r = q \<and> \<not> success r \<and> finalOutput r = JUndefined"
      if h: "runFailed cb w q t s = (Inr r, s')" "tr = st_trace s'" "accounted s"
        "subseq (map fst (executed (st_trace s))) q" for t s s'
    proof -
      from keepsD [OF keeps_runFailed h(1)] have u: "untouched s s'" .
      from accounted_untouched [OF h(3) u] have a: "accounted s'" .
      from h(1) have shape: "\<not> success r \<and> finalOutput r = JUndefined \<and> executionQueue r = q
          \<and> completedNodes r = st_completedNodes s'"
        by (auto simp: runFailed_def throws_def and_then_def aborted_def split: sum.splits prod.splits)
      with a u h(2,4) show ?thesis by (simp add: accounted_def untouched_def)
    qed
    show ?thesis
    proof (cases o1)
      case bad: (Inl t)
      with assms f Inr l have "\<exists>s'. runFailed cb w q t st1 = (Inr r, s') \<and> tr = st_trace s'"
        by (auto simp: whole and_then_def try_catch_def ra split: prod.splits)
      with failed a1 e1 show ?thesis by (auto simp: q_def)
    next
      case ok: (Inr v)
      obtain o2 st2 where c: "closing st1 = (o2, st2)" by (cases "closing st1")
      have "keeps closing" by (simp add: closing_def keeps_addLog)
      from keepsD [OF this c] have u2: "untouched st1 st2" .
      from accounted_untouched [OF a1 u2] have a2: "accounted st2" .
      from e1 u2 have e2: "subseq (map fst (executed (st_trace st2))) q" by (simp add: untouched_def)
      show ?thesis
      proof (cases o2)
        case (Inl t)
        with assms f Inr l ok c have "\<exists>s'. runFailed cb w q t st2 = (Inr r, s') \<and> tr = st_trace s'"
          by (auto simp: whole and_then_def try_catch_def ra split: prod.splits)
        with failed a2 e2 show ?thesis by (auto simp: q_def)
      next
        case fin: (Inr v2)
        with assms f Inr l ok c
        have "r = \<lparr>success = True, error = None, finalOutput = st_finalOutput st2, executionQueue = q,
                    completedNodes = st_completedNodes st2, logs = st_logs st2\<rparr>" and "tr = st_trace st2"
          by (auto simp: whole and_then_def try_catch_def ra completed_def)
        with a2 e2 show ?thesis by (simp add: accounted_def q_def)
      qed
    qed
  qed
qed

text \<open>
  C9, as the claim states it, fails in a run that ends in the outer \<open>catch\<close>: the result
  then has no \<open>finalOutput\<close>. With the entry node completed and \<open>onNodeStart\<close> throwing for
  the next entry, \<open>finalOutput\<close> is not the output of the node that succeeded; with
  \<open>onNodeStart\<close> throwing for the entry node, no node succeeded and \<open>finalOutput\<close> is not
  \<open>null\<close>.
\<close>

theorem aborted_run_returns_no_final_output:
  "(case QueueFlowExecutor_executeFlow failing_second sample_world scenario_nodes [] of
      (Inr r, tr) \<Rightarrow> completedNodes r = [''input-node'']
         \<and> map (\<lambda>(nid, res). output_value res) (succeeded tr) = [initializedPayload ''3'']
         \<and> finalOutput r \<noteq> initializedPayload ''3''
    | (Inl t, tr) \<Rightarrow> False)
   \<and> (case QueueFlowExecutor_executeFlow failing_start sample_world [entry_node] [] of
      (Inr r, tr) \<Rightarrow> completedNodes r = [] \<and> finalOutput r \<noteq> JNull
    | (Inl t, tr) \<Rightarrow> False)"
proof -
  from second_start_fails_run obtain r tr
    where "QueueFlowExecutor_executeFlow failing_second sample_world scenario_nodes [] = (Inr r, tr)"
      and "completedNodes r = [''input-node'']" "finalOutput r = JUndefined"
      and "map (\<lambda>(nid, res). output_value res) (succeeded tr) = [initializedPayload ''3'']"
    by auto
  moreover from first_start_fails_run obtain r0 tr0
    where "QueueFlowExecutor_executeFlow failing_start sample_world [entry_node] [] = (Inr r0, tr0)"
      and "completedNodes r0 = []" "finalOutput r0 = JUndefined"
    by auto
  ultimately show ?thesis by (simp add: initializedPayload_def)
qed

theorem completed_nodes_are_successful_returns_witness:
  "(\<exists>r tr. QueueFlowExecutor_executeFlow no_callbacks sample_world scenario_nodes [] = (Inr r, tr)
      \<and> success r
      \<and> executionQueue r = [''input-node'', ''node-1000'', ''node-2000'']
      \<and> completedNodes r = [''input-node'', ''node-2000'']
      \<and> map fst (succeeded tr) = [''input-node'', ''node-2000'']
      \<and> finalOutput r = JStr ''pong''
      \<and> last (JNull # map (\<lambda>(nid, res). output_value res) (succeeded tr)) = JStr ''pong'')
   \<and> (\<exists>r tr. QueueFlowExecutor_executeFlow failing_second sample_world scenario_nodes [] = (Inr r, tr)
      \<and> \<not> success r
      \<and> completedNodes r = [''input-node'']
      \<and> map fst (succeeded tr) = [''input-node'']
      \<and> finalOutput r = JUndefined)"
proof -
  from run_quiet [OF quiet_no_callbacks, of sample_world scenario_nodes "[]"] obtain r tr
    where run: "QueueFlowExecutor_executeFlow no_callbacks sample_world scenario_nodes [] = (Inr r, tr)"
      and ok: "success r"
      and cn: "completedNodes r = map snd (filter (\<lambda>(k, nid). succeeds sample_world k nid)
                 (enumerate 0 (createExecutionQueue sample_world scenario_nodes)))"
      and fo: "finalOutput r = last (JNull # map (\<lambda>(k, nid). outputOf sample_world k nid)
                 (filter (\<lambda>(k, nid). succeeds sample_world k nid)
                    (enumerate 0 (createExecutionQueue sample_world scenario_nodes))))"
    by blast
  from cn fo have vals: "completedNodes r = [''input-node'', ''node-2000'']" "finalOutput r = JStr ''pong''"
    by (simp_all add: scenario_queue enumerate_simps sample_verdicts)
  from completed_nodes_are_successful_returns [OF run] ok vals
  have first: "executionQueue r = [''input-node'', ''node-1000'', ''node-2000'']"
      "map fst (succeeded tr) = [''input-node'', ''node-2000'']"
      "last (JNull # map (\<lambda>(nid, res). output_value res) (succeeded tr)) = JStr ''pong''"
    by (simp_all add: scenario_queue)
  from second_start_fails_run obtain r2 tr2
    where run2: "QueueFlowExecutor_executeFlow failing_second sample_world scenario_nodes [] = (Inr r2, tr2)"
      and bad: "\<not> success r2" and cn2: "completedNodes r2 = [''input-node'']"
    by auto
  from completed_nodes_are_successful_returns [OF run2] bad cn2
  have second: "map fst (succeeded tr2) = [''input-node'']" "finalOutput r2 = JUndefined"
    by simp_all
  have part1: "\<exists>r tr. QueueFlowExecutor_executeFlow no_callbacks sample_world scenario_nodes [] = (Inr r, tr)
      \<and> success r
      \<and> executionQueue r = [''input-node'', ''node-1000'', ''node-2000'']
      \<and> completedNodes r = [''input-node'', ''node-2000'']
      \<and> map fst (succeeded tr) = [''input-node'', ''node-2000'']
      \<and> finalOutput r = JStr ''pong''
      \<and> last (JNull # map (\<lambda>(nid, res). output_value res) (succeeded tr)) = JStr ''pong''"
    using run ok vals first by simp
  have part2: "\<exists>r tr. QueueFlowExecutor_executeFlow failing_second sample_world scenario_nodes [] = (Inr r, tr)
      \<and> \<not> success r
      \<and> completedNodes r = [''input-node'']
      \<and> map fst (succeeded tr) = [''input-node'']
      \<and> finalOutput r = JUndefined"
    using run2 bad cn2 second by simp
  from part1 part2 show ?thesis by (rule conjI)
qed

text \<open>
  C2: the claim fails where a \<open>catch\<close> clause of \<open>executeFlow\<close> itself raises. \<open>onNodeStart\<close>
  throws, inside the outer \<open>try\<close>, an object that is no \<open>Error\<close> and whose \<open>toString\<close>
  throws \<open>1\<close>; the outer \<open>catch\<close> evaluates \<open>String(error)\<close>, which raises \<open>1\<close>, and the call
  raises instead of returning a result with \<open>success: false\<close> and the log so far.
\<close>

theorem outer_catch_raises_on_unprintable:
  "fst (QueueFlowExecutor_executeFlow unprintable_start sample_world [entry_node] []) = Inl (OtherValue ''1'')"
  by (simp only: QueueFlowExecutor_executeFlow_def entry_queue)
     (simp add: flow_run_defs run_defs unprintable_start_def entry_node_def)

end
